theory Spec2Isabelle
  imports Complex_Main "HOL-Library.Word" "HOL-Library.Signed_Division"
begin

section \<open>The fractal engine of fractalAnimator.cpp\<close>

text \<open>
  The engine computes escape-time fractals (Mandelbrot, Burning Ship and their Julia sets),
  maps the escape data to colours and fills an RGBA buffer band by band.

  Conventions of the embedding.
  \<^item> \<open>double\<close> and \<open>float\<close> values are real numbers: rounding and signed zeros are not
    modelled. Overflow to infinity is modelled where the result goes on to a conversion to
    \<open>int\<close>, in the quotient of \<open>adjustIterations\<close>, and nowhere else. Where the C library
    yields no number (\<open>log\<close> of a non-positive argument) the model yields \<open>None\<close>.
  \<^item> A division by zero and a conversion of a value that the target integer type cannot
    hold are faults, returned as \<open>Inl\<close>.
  \<^item> The \<open>while\<close> loop of \<open>calculateFractal\<close> takes fuel, one unit per pass; \<open>None\<close>
    means that the fuel ran out before the loop returned.
  \<^item> \<open>int\<close> values are mathematical integers. The loop counter never exceeds the
    iteration cap when the cap is at least 1, so it cannot overflow there; pixel indices
    are taken to fit.
  \<^item> \<open>NUM_THREADS\<close> and the side of the anti-aliasing grid are arguments of the
    functions that use them.
\<close>

subsection \<open>Constants\<close>

definition WINDOW_WIDTH :: int where
  "WINDOW_WIDTH = 192 * 7"

definition WINDOW_HEIGHT :: int where
  "WINDOW_HEIGHT = 108 * 7"

definition ESCAPE_RADIUS_SQUARED :: real where
  "ESCAPE_RADIUS_SQUARED = 100 * 100"

definition ASPECT_RATIO :: real where
  "ASPECT_RATIO = real_of_int WINDOW_WIDTH / real_of_int WINDOW_HEIGHT"

definition AA_MAX_SAMPLES :: int where
  "AA_MAX_SAMPLES = 6"

subsection \<open>Data\<close>

record RenderState =
  viewportX :: real
  viewportY :: real
  viewportHeight :: real
  maxIterations :: int
  colorDensity :: real
  showJulia :: bool
  juliaX :: real
  juliaY :: real
  colorScheme :: int
  autoIterations :: bool
  fractalType :: int
  stripes :: bool
  stripeFrequency :: real
  stripeIntensity :: real
  innerCalculation :: bool
  antiAliasing :: bool

definition getViewportWidth :: "RenderState \<Rightarrow> real" where
  "getViewportWidth state = viewportHeight state * ASPECT_RATIO"

text \<open>The member initialisers of \<open>RenderState\<close>.\<close>

definition defaultState :: RenderState where
  "defaultState = \<lparr> viewportX = -0.5, viewportY = 0, viewportHeight = 3.0,
     maxIterations = 128, colorDensity = 0.2, showJulia = False, juliaX = -0.8,
     juliaY = 0.156, colorScheme = 0, autoIterations = True, fractalType = 0,
     stripes = False, stripeFrequency = 5, stripeIntensity = 10,
     innerCalculation = False, antiAliasing = False \<rparr>"

text \<open>
  \<open>ReturnInfo\<close>: on the interior returns only \<open>iteration\<close> is assigned, the two other
  fields stay uninitialised (\<open>None\<close>). \<open>smoothIteration\<close> is also \<open>None\<close> when the
  logarithms have no value.
\<close>

record ReturnInfo =
  iteration :: int
  smoothIteration :: "real option"
  stripeSum :: "real option"

datatype fault = DivisionByZero | NotRepresentable

subsection \<open>Library functions\<close>

text \<open>\<open>log\<close> of \<open>cmath\<close>: a real number only for a positive argument.\<close>

definition log_d :: "real \<Rightarrow> real option" where
  "log_d x = (if 0 < x then Some (ln x) else None)"

text \<open>\<open>atan2 y x\<close>, the angle of the point \<open>(x, y)\<close> in \<open>(-pi, pi]\<close>, \<open>0\<close> at the origin.\<close>

definition atan2 :: "real \<Rightarrow> real \<Rightarrow> real" where
  "atan2 y x =
     (if 0 < x then arctan (y / x)
      else if x < 0 \<and> 0 \<le> y then arctan (y / x) + pi
      else if x < 0 then arctan (y / x) - pi
      else if 0 < y then pi / 2
      else if y < 0 then - pi / 2
      else 0)"

subsection \<open>calculateFractal\<close>

text \<open>
  The expression \<open>i + 1 - log(log(zr2 + zi2) / 2) / log(2)\<close>, which the source writes at
  both places where it fills \<open>smoothIteration\<close>; \<open>m\<close> is \<open>zr2 + zi2\<close>.
\<close>

definition smoothValue :: "int \<Rightarrow> real \<Rightarrow> real option" where
  "smoothValue i m =
     (case log_d m of
        None \<Rightarrow> None
      | Some l \<Rightarrow>
          (case log_d (l / 2) of
             None \<Rightarrow> None
           | Some l2 \<Rightarrow> Some (real_of_int i + 1 - l2 / ln 2)))"

text \<open>
  The main iteration loop with the return that follows it. The arguments after the fuel are
  the variables the loop reads and writes: \<open>cr_actual\<close>, \<open>ci_actual\<close>, \<open>maxIter\<close>,
  \<open>fractalType\<close>, \<open>stripes\<close>, \<open>stripeFrequency\<close>, \<open>innerCalculation\<close>, then \<open>zr\<close>, \<open>zi\<close>,
  \<open>zr2\<close>, \<open>zi2\<close>, \<open>stripeSum\<close> and \<open>i\<close>.
\<close>

fun iterLoop :: "nat \<Rightarrow> real \<Rightarrow> real \<Rightarrow> int \<Rightarrow> int \<Rightarrow> bool \<Rightarrow> real \<Rightarrow> bool
    \<Rightarrow> real \<Rightarrow> real \<Rightarrow> real \<Rightarrow> real \<Rightarrow> real \<Rightarrow> int \<Rightarrow> ReturnInfo option" where
  "iterLoop 0 cra cia maxIter ftype strp sfreq inner zr zi zr2 zi2 ssum i =
     (if zr2 + zi2 < ESCAPE_RADIUS_SQUARED then None
      else Some \<lparr> iteration = i, smoothIteration = smoothValue i (zr2 + zi2),
                  stripeSum = Some ssum \<rparr>)"
| "iterLoop (Suc fuel) cra cia maxIter ftype strp sfreq inner zr zi zr2 zi2 ssum i =
     (if zr2 + zi2 < ESCAPE_RADIUS_SQUARED then
        (let zi' = (if ftype = 0 then 2 * zr * zi else 2 * \<bar>zr * zi\<bar>) + cia;
             zr' = zr2 - zi2 + cra;
             zr2' = zr' * zr';
             zi2' = zi' * zi';
             ssum' = (if strp then ssum + (sin (atan2 zi' zr' * sfreq))\<^sup>2 else ssum);
             i' = i + 1
         in if i' = maxIter then
              (if inner then
                 Some \<lparr> iteration = i', smoothIteration = smoothValue i' (zr2' + zi2'),
                        stripeSum = Some ssum' \<rparr>
               else Some \<lparr> iteration = -1, smoothIteration = None, stripeSum = None \<rparr>)
            else iterLoop fuel cra cia maxIter ftype strp sfreq inner zr' zi' zr2' zi2' ssum' i')
      else Some \<lparr> iteration = i, smoothIteration = smoothValue i (zr2 + zi2),
                  stripeSum = Some ssum \<rparr>)"

text \<open>The two closed-form tests of the early bailout.\<close>

definition cardioidCheck :: "real \<Rightarrow> real \<Rightarrow> bool" where
  "cardioidCheck cr ci =
     (let q = (cr - 0.25) * (cr - 0.25) + ci * ci
      in q * (q + (cr - 0.25)) < 0.25 * ci * ci)"

definition bulbCheck :: "real \<Rightarrow> real \<Rightarrow> bool" where
  "bulbCheck cr ci = ((cr + 1.0) * (cr + 1.0) + ci * ci < 0.0625)"

definition calculateFractal :: "nat \<Rightarrow> real \<Rightarrow> real \<Rightarrow> real \<Rightarrow> real \<Rightarrow> int \<Rightarrow> bool \<Rightarrow> int
    \<Rightarrow> bool \<Rightarrow> real \<Rightarrow> bool \<Rightarrow> ReturnInfo option" where
  "calculateFractal fuel cr ci jr ji maxIter isJulia ftype strp sfreq inner =
     (let zr = (if isJulia then cr else 0);
          zi = (if isJulia then ci else 0);
          cr_actual = (if isJulia then jr else cr);
          ci_actual = (if isJulia then ji else ci)
      in if \<not> inner \<and> \<not> isJulia \<and> ftype = 0 \<and> cardioidCheck cr ci then
           Some \<lparr> iteration = -1, smoothIteration = None, stripeSum = None \<rparr>
         else if \<not> inner \<and> \<not> isJulia \<and> ftype = 0 \<and> bulbCheck cr ci then
           Some \<lparr> iteration = -1, smoothIteration = None, stripeSum = None \<rparr>
         else iterLoop fuel cr_actual ci_actual maxIter ftype strp sfreq inner
                zr zi (zr * zr) (zi * zi) 0 0)"


subsection \<open>Conversions\<close>

text \<open>
  A floating-point value converted to an integer type is truncated towards zero; the
  conversion has no defined result when the truncated value does not fit the type.
\<close>

definition trunc :: "real \<Rightarrow> int" where
  "trunc x = (if 0 \<le> x then \<lfloor>x\<rfloor> else \<lceil>x\<rceil>)"

definition toInt :: "real \<Rightarrow> fault + int" where
  "toInt x =
     (if - 2147483649 < x \<and> x < 2147483648 then Inr (trunc x) else Inl NotRepresentable)"

definition toUint8 :: "real \<Rightarrow> fault + 8 word" where
  "toUint8 x = (if - 1 < x \<and> x < 256 then Inr (word_of_int (trunc x)) else Inl NotRepresentable)"

text \<open>An \<open>int\<close> operand of \<open>%\<close> against a \<open>size_t\<close> is converted to \<open>size_t\<close> (64 bits).\<close>

definition toSizeT :: "int \<Rightarrow> int" where
  "toSizeT k = k mod 2 ^ 64"

subsection \<open>Colours and palettes\<close>

datatype Color = Color (col_r: "8 word") (col_g: "8 word") (col_b: "8 word")

definition PALETTES :: "Color list list" where
  "PALETTES =
     [[Color 66 30 15, Color 25 7 26, Color 9 1 47,
       Color 4 4 73, Color 0 7 100, Color 12 44 138,
       Color 24 82 177, Color 57 125 209, Color 134 181 229,
       Color 211 236 248, Color 241 233 191, Color 248 201 95,
       Color 255 170 0, Color 204 128 0, Color 153 87 0],
      [Color 0 0 0, Color 255 255 255]]"

definition interpolateColors :: "Color \<Rightarrow> Color \<Rightarrow> real \<Rightarrow> fault + Color" where
  "interpolateColors c1 c2 factor =
     (case toUint8 (real_of_int (uint (col_r c1))
                      + factor * real_of_int (uint (col_r c2) - uint (col_r c1))) of
        Inl e \<Rightarrow> Inl e
      | Inr rr \<Rightarrow>
     (case toUint8 (real_of_int (uint (col_g c1))
                      + factor * real_of_int (uint (col_g c2) - uint (col_g c1))) of
        Inl e \<Rightarrow> Inl e
      | Inr gg \<Rightarrow>
     (case toUint8 (real_of_int (uint (col_b c1))
                      + factor * real_of_int (uint (col_b c2) - uint (col_b c1))) of
        Inl e \<Rightarrow> Inl e
      | Inr bb \<Rightarrow> Inr (Color rr gg bb))))"

text \<open>
  The three lines that map the value \<open>iterations\<close> to a colour (the same text in
  \<open>calculateAntiAliasedColor\<close> and in \<open>renderFractalRegion\<close>): \<open>index\<close> by the conversion to
  \<open>int\<close>, \<open>fract\<close> by \<open>std::floor\<close>, then \<open>interpolateColors\<close>.
\<close>

definition colorFor :: "real \<Rightarrow> Color list \<Rightarrow> fault + Color" where
  "colorFor iterations palette =
     (case toInt iterations of
        Inl e \<Rightarrow> Inl e
      | Inr k \<Rightarrow>
          if palette = [] then Inl DivisionByZero
          else
            (let n = int (length palette);
                 index = toSizeT k mod n;
                 fract = iterations - real_of_int \<lfloor>iterations\<rfloor>
             in interpolateColors (palette ! nat index) (palette ! nat (toSizeT (index + 1) mod n))
                  fract))"

text \<open>
  The colouring of one \<open>ReturnInfo\<close> (again the same text in both callers): black for
  \<open>iteration == -1\<close>, else the stripe average or the smoothed count, mapped by the palette.
\<close>

definition shade :: "RenderState \<Rightarrow> Color list \<Rightarrow> ReturnInfo \<Rightarrow> fault + Color" where
  "shade state palette info =
     (if iteration info = -1 then Inr (Color 0 0 0)
      else
        (case (if stripes state then
                 (case stripeSum info of
                    None \<Rightarrow> Inl NotRepresentable
                  | Some s \<Rightarrow>
                      if iteration info = 0 then Inl DivisionByZero
                      else Inr (stripeIntensity state * (s / real_of_int (iteration info))))
               else
                 (case smoothIteration info of
                    None \<Rightarrow> Inl NotRepresentable
                  | Some sm \<Rightarrow> Inr (sm * colorDensity state))) of
           Inl e \<Rightarrow> Inl e
         | Inr iterations \<Rightarrow> colorFor iterations palette))"

text \<open>
  One sample: the call of \<open>calculateFractal\<close> with the fields of the state, and the colouring
  of its result. \<open>None\<close> when the call does not return on the given fuel.
\<close>

definition sampleColor :: "nat \<Rightarrow> RenderState \<Rightarrow> Color list \<Rightarrow> real \<Rightarrow> real
    \<Rightarrow> (fault + Color) option" where
  "sampleColor fuel state palette cr ci =
     (case calculateFractal fuel cr ci (juliaX state) (juliaY state) (maxIterations state)
             (showJulia state) (fractalType state) (stripes state) (stripeFrequency state)
             (innerCalculation state) of
        None \<Rightarrow> None
      | Some info \<Rightarrow> Some (shade state palette info))"

subsection \<open>calculateAntiAliasedColor\<close>

text \<open>The first sample that faults or does not return ends the pixel.\<close>

fun collectColors :: "(fault + Color) option list \<Rightarrow> (fault + Color list) option" where
  "collectColors [] = Some (Inr [])"
| "collectColors (None # rest) = None"
| "collectColors (Some (Inl e) # rest) = Some (Inl e)"
| "collectColors (Some (Inr c) # rest) =
     (case collectColors rest of
        None \<Rightarrow> None
      | Some (Inl e) \<Rightarrow> Some (Inl e)
      | Some (Inr cs) \<Rightarrow> Some (Inr (c # cs)))"

text \<open>
  The body of \<open>calculateAntiAliasedColor\<close> with the side \<open>samples\<close> of the grid as an
  argument; the source fixes it to \<open>AA_MAX_SAMPLES + 1\<close>. A width or height of zero makes
  the pixel sizes a division by zero.
\<close>

definition antiAliasedColor :: "int \<Rightarrow> nat \<Rightarrow> int \<Rightarrow> int \<Rightarrow> RenderState \<Rightarrow> int \<Rightarrow> int
    \<Rightarrow> Color list \<Rightarrow> (fault + Color) option" where
  "antiAliasedColor samples fuel x y state width height palette =
     (if width = 0 \<or> height = 0 then Some (Inl DivisionByZero)
      else
        (let pixelHeight = viewportHeight state / real_of_int height;
             pixelWidth = getViewportWidth state / real_of_int width;
             halfHeight = viewportHeight state / 2;
             halfWidth = getViewportWidth state / 2;
             sampleColors =
               concat (map (\<lambda>sy. map (\<lambda>sx.
                 (let offsetX = (real_of_int sx + 0.5) / real_of_int samples;
                      offsetY = (real_of_int sy + 0.5) / real_of_int samples;
                      cr = viewportX state - halfWidth + (real_of_int x + offsetX) * pixelWidth;
                      ci = viewportY state - halfHeight + (real_of_int y + offsetY) * pixelHeight
                  in sampleColor fuel state palette cr ci))
                 [0..samples - 1]) [0..samples - 1])
         in case collectColors sampleColors of
              None \<Rightarrow> None
            | Some (Inl e) \<Rightarrow> Some (Inl e)
            | Some (Inr cs) \<Rightarrow>
                (let totalR = (\<Sum>c\<leftarrow>cs. uint (col_r c));
                     totalG = (\<Sum>c\<leftarrow>cs. uint (col_g c));
                     totalB = (\<Sum>c\<leftarrow>cs. uint (col_b c));
                     sampleCount = int (length cs)
                 in if sampleCount = 0 then Some (Inl DivisionByZero)
                    else Some (Inr (Color (word_of_int (totalR sdiv sampleCount))
                                          (word_of_int (totalG sdiv sampleCount))
                                          (word_of_int (totalB sdiv sampleCount)))))))"

definition calculateAntiAliasedColor :: "nat \<Rightarrow> int \<Rightarrow> int \<Rightarrow> RenderState \<Rightarrow> int \<Rightarrow> int
    \<Rightarrow> Color list \<Rightarrow> (fault + Color) option" where
  "calculateAntiAliasedColor fuel x y state width height palette =
     antiAliasedColor (AA_MAX_SAMPLES + 1) fuel x y state width height palette"

subsection \<open>renderFractalRegion and renderFractal\<close>

text \<open>The pixel buffer: the bytes behind the pointer \<open>pixels\<close>, by index.\<close>

type_synonym buffer = "int \<Rightarrow> 8 word"

text \<open>The colour of one pixel: the body of the inner loop up to the four writes.\<close>

definition pixelColor :: "nat \<Rightarrow> RenderState \<Rightarrow> Color list \<Rightarrow> int \<Rightarrow> int \<Rightarrow> int \<Rightarrow> int
    \<Rightarrow> (fault + Color) option" where
  "pixelColor fuel state palette x y width height =
     (if antiAliasing state then calculateAntiAliasedColor fuel x y state width height palette
      else if width = 0 \<or> height = 0 then Some (Inl DivisionByZero)
      else
        (let pixelHeight = viewportHeight state / real_of_int height;
             pixelWidth = getViewportWidth state / real_of_int width;
             halfHeight = viewportHeight state / 2;
             halfWidth = getViewportWidth state / 2;
             cr = viewportX state - halfWidth + real_of_int x * pixelWidth;
             ci = viewportY state - halfHeight + real_of_int y * pixelHeight
         in sampleColor fuel state palette cr ci))"

definition writePixel :: "buffer \<Rightarrow> int \<Rightarrow> int \<Rightarrow> int \<Rightarrow> Color \<Rightarrow> buffer" where
  "writePixel pixels width x y color =
     (let pixelIndex = (y * width + x) * 4
      in pixels(pixelIndex := col_r color, pixelIndex + 1 := col_g color,
                pixelIndex + 2 := col_b color, pixelIndex + 3 := 255))"

text \<open>The pixels of the rows \<open>startY \<le> y < endY\<close> in the order of the two loops.\<close>

definition regionPixels :: "int \<Rightarrow> int \<Rightarrow> int \<Rightarrow> (int \<times> int) list" where
  "regionPixels startY endY width =
     concat (map (\<lambda>y. map (\<lambda>x. (x, y)) [0..width - 1]) [startY..endY - 1])"

fun renderPixels :: "nat \<Rightarrow> RenderState \<Rightarrow> Color list \<Rightarrow> int \<Rightarrow> int \<Rightarrow> (int \<times> int) list
    \<Rightarrow> buffer \<Rightarrow> (fault + buffer) option" where
  "renderPixels fuel state palette width height [] pixels = Some (Inr pixels)"
| "renderPixels fuel state palette width height (p # rest) pixels =
     (case pixelColor fuel state palette (fst p) (snd p) width height of
        None \<Rightarrow> None
      | Some (Inl e) \<Rightarrow> Some (Inl e)
      | Some (Inr color) \<Rightarrow>
          renderPixels fuel state palette width height rest
            (writePixel pixels width (fst p) (snd p) color))"

definition renderFractalRegion :: "nat \<Rightarrow> buffer \<Rightarrow> RenderState \<Rightarrow> int \<Rightarrow> int \<Rightarrow> int \<Rightarrow> int
    \<Rightarrow> (fault + buffer) option" where
  "renderFractalRegion fuel pixels state startY endY width height =
     (let palette = PALETTES ! nat (toSizeT (colorScheme state) mod int (length PALETTES))
      in renderPixels fuel state palette width height (regionPixels startY endY width) pixels)"

text \<open>
  The bands of \<open>renderFractal\<close>, one per thread, for \<open>NUM_THREADS = numThreads\<close>
  (the hardware concurrency, or 8).
\<close>

definition bands :: "int \<Rightarrow> int \<Rightarrow> (int \<times> int) list" where
  "bands numThreads height =
     (let linesPerThread = height sdiv numThreads
      in map (\<lambda>i. (i * linesPerThread,
                    if i = numThreads - 1 then height else (i + 1) * linesPerThread))
           [0..numThreads - 1])"

text \<open>
  The threads write disjoint rows and read nothing they write, so the model runs them one
  after the other, in the order of their creation. The parameter \<open>usePreview\<close> of
  \<open>renderFractal\<close> is never read and is left out.
\<close>

fun runBands :: "nat \<Rightarrow> RenderState \<Rightarrow> int \<Rightarrow> int \<Rightarrow> (int \<times> int) list \<Rightarrow> buffer
    \<Rightarrow> (fault + buffer) option" where
  "runBands fuel state width height [] pixels = Some (Inr pixels)"
| "runBands fuel state width height (b # rest) pixels =
     (case renderFractalRegion fuel pixels state (fst b) (snd b) width height of
        None \<Rightarrow> None
      | Some (Inl e) \<Rightarrow> Some (Inl e)
      | Some (Inr pixels') \<Rightarrow> runBands fuel state width height rest pixels')"

definition renderFractal :: "int \<Rightarrow> nat \<Rightarrow> buffer \<Rightarrow> RenderState \<Rightarrow> int \<Rightarrow> int
    \<Rightarrow> (fault + buffer) option" where
  "renderFractal numThreads fuel pixels state width height =
     (if numThreads = 0 then Some (Inl DivisionByZero)
      else runBands fuel state width height (bands numThreads height) pixels)"

subsection \<open>adjustIterations\<close>

text \<open>\<open>log10\<close>, like \<open>log\<close>, is a real number only for a positive argument.\<close>

definition log10_d :: "real \<Rightarrow> real option" where
  "log10_d x = (if 0 < x then Some (log 10 x) else None)"

text \<open>
  The largest finite \<open>double\<close>, \<open>(2 - 2\<^sup>-\<^sup>5\<^sup>2) * 2\<^sup>1\<^sup>0\<^sup>2\<^sup>3\<close>. A quotient rounds to an infinity
  when its magnitude reaches \<open>DBL_MAX\<close> plus half a unit of the last place, \<open>2\<^sup>9\<^sup>7\<^sup>0\<close>.
\<close>

definition DBL_MAX :: real where
  "DBL_MAX = (2 ^ 54 - 2) * 2 ^ 970"

definition overflows :: "real \<Rightarrow> bool" where
  "overflows q = (DBL_MAX + 2 ^ 970 \<le> \<bar>q\<bar>)"

text \<open>
  When \<open>3.0 / viewportHeight\<close> is an infinity, \<open>log10\<close> gives an infinity or no number, and
  the conversion of \<open>100 * log10(...)\<close> to \<open>int\<close> has no defined result.
\<close>

definition adjustIterations :: "RenderState \<Rightarrow> fault + RenderState" where
  "adjustIterations state =
     (if autoIterations state then
        (if viewportHeight state = 0 then Inl DivisionByZero
         else
           (let zoomFactor = 3.0 / viewportHeight state
            in if overflows zoomFactor then Inl NotRepresentable
               else
                 (case log10_d (1 + zoomFactor) of
                    None \<Rightarrow> Inl NotRepresentable
                  | Some l \<Rightarrow>
                      (case toInt (100 * l) of
                         Inl e \<Rightarrow> Inl e
                       | Inr t \<Rightarrow>
                           Inr (state\<lparr> maxIterations := max 100 (min 10000 t) \<rparr>)))))
      else Inr state)"


section \<open>Reference notions\<close>

text \<open>
  The iteration as the specification words it, on pairs \<open>(zr, zi)\<close>: the square of the
  variant, the step \<open>z \<leftarrow> f(z) + c\<close>, the orbit of the start point, \<open>|z|\<^sup>2\<close>, and the stripe
  term summed over the steps made.
\<close>

definition spec_square :: "int \<Rightarrow> real \<times> real \<Rightarrow> real \<times> real" where
  "spec_square v z =
     (fst z * fst z - snd z * snd z,
      if v = 0 then 2 * fst z * snd z else 2 * \<bar>fst z * snd z\<bar>)"

definition spec_step :: "int \<Rightarrow> real \<times> real \<Rightarrow> real \<times> real \<Rightarrow> real \<times> real" where
  "spec_step v c z = (fst (spec_square v z) + fst c, snd (spec_square v z) + snd c)"

definition spec_orbit :: "int \<Rightarrow> real \<times> real \<Rightarrow> real \<times> real \<Rightarrow> nat \<Rightarrow> real \<times> real" where
  "spec_orbit v c z k = ((spec_step v c) ^^ k) z"

definition spec_normSq :: "real \<times> real \<Rightarrow> real" where
  "spec_normSq z = fst z * fst z + snd z * snd z"

definition spec_stripeTerm :: "real \<Rightarrow> real \<times> real \<Rightarrow> real" where
  "spec_stripeTerm sfreq z = (sin (atan2 (snd z) (fst z) * sfreq))\<^sup>2"

definition spec_stripeSum :: "bool \<Rightarrow> real \<Rightarrow> int \<Rightarrow> real \<times> real \<Rightarrow> real \<times> real \<Rightarrow> nat \<Rightarrow> real" where
  "spec_stripeSum strp sfreq v c z k =
     (if strp then (\<Sum>j = 1..k. spec_stripeTerm sfreq (spec_orbit v c z j)) else 0)"

text \<open>
  The mode selection: in Julia mode the iteration starts at the sample point and adds the
  seed, in Mandelbrot mode it starts at the origin and adds the sample point.
\<close>

definition spec_start :: "bool \<Rightarrow> real \<Rightarrow> real \<Rightarrow> real \<times> real" where
  "spec_start isJulia cr ci = (if isJulia then (cr, ci) else (0, 0))"

definition spec_constant :: "bool \<Rightarrow> real \<Rightarrow> real \<Rightarrow> real \<Rightarrow> real \<Rightarrow> real \<times> real" where
  "spec_constant isJulia cr ci jr ji = (if isJulia then (jr, ji) else (cr, ci))"

text \<open>The condition under which \<open>calculateFractal\<close> returns before its loop.\<close>

definition prunes :: "bool \<Rightarrow> bool \<Rightarrow> int \<Rightarrow> real \<Rightarrow> real \<Rightarrow> bool" where
  "prunes inner isJulia ftype cr ci =
     (\<not> inner \<and> \<not> isJulia \<and> ftype = 0 \<and> (cardioidCheck cr ci \<or> bulbCheck cr ci))"


text \<open>
  The colour mapping as the specification words it: the index is the floor of the metric
  modulo the palette size, the fraction is the metric minus its floor.
\<close>

definition spec_colorFor :: "real \<Rightarrow> Color list \<Rightarrow> fault + Color" where
  "spec_colorFor metric palette =
     (let paletteSize = int (length palette);
          index = \<lfloor>metric\<rfloor> mod paletteSize;
          fraction = metric - real_of_int \<lfloor>metric\<rfloor>
      in interpolateColors (palette ! nat index) (palette ! nat ((index + 1) mod paletteSize))
           fraction)"

text \<open>
  A state for the Julia view with stripes, panned to the right of the escape circle.
\<close>

definition juliaStripeState :: RenderState where
  "juliaStripeState = defaultState \<lparr> viewportX := 1000, showJulia := True, stripes := True \<rparr>"

text \<open>
  A view with stripes whose pixel \<open>(0, 0)\<close>, in a 4 by 45 image, has its corner inside the
  cardioid and its centre on the real axis outside the set.
\<close>

definition centreShiftState :: RenderState where
  "centreShiftState =
     defaultState \<lparr> viewportX := 8, viewportY := 4.4, viewportHeight := 9, stripes := True \<rparr>"

text \<open>
  Bands that follow one another from row \<open>a\<close> to row \<open>c\<close>: each starts where the one before it
  ends, and none has a negative number of rows.
\<close>

fun spec_contiguous :: "int \<Rightarrow> (int \<times> int) list \<Rightarrow> int \<Rightarrow> bool" where
  "spec_contiguous a [] c = (a = c)"
| "spec_contiguous a (b # bs) c = (fst b = a \<and> a \<le> snd b \<and> spec_contiguous (snd b) bs c)"

text \<open>The least positive \<open>double\<close>, and the default state with it as viewport height.\<close>

definition DBL_TRUE_MIN :: real where
  "DBL_TRUE_MIN = 1 / 2 ^ 1074"

definition deepZoomState :: RenderState where
  "deepZoomState = defaultState \<lparr> viewportHeight := DBL_TRUE_MIN \<rparr>"

section \<open>The iteration loop\<close>

lemma orbit_0: "spec_orbit v c z 0 = z"
  by (simp add: spec_orbit_def)

lemma orbit_Suc_shift: "spec_orbit v c z (Suc k) = spec_orbit v c (spec_step v c z) k"
  by (simp add: spec_orbit_def funpow_swap1)

lemma stripeAcc_0: "spec_stripeSum strp sfreq v c z 0 = 0"
  by (simp add: spec_stripeSum_def)

lemma stripeAcc_Suc_shift:
  "spec_stripeSum strp sfreq v c z (Suc k) =
     (if strp then spec_stripeTerm sfreq (spec_step v c z) else 0)
       + spec_stripeSum strp sfreq v c (spec_step v c z) k"
proof (cases strp)
  case False
  then show ?thesis by (simp add: spec_stripeSum_def)
next
  case True
  have "(\<Sum>j = Suc 0..Suc k. spec_stripeTerm sfreq (spec_orbit v c z j))
      = spec_stripeTerm sfreq (spec_orbit v c z (Suc 0))
        + (\<Sum>j = Suc (Suc 0)..Suc k. spec_stripeTerm sfreq (spec_orbit v c z j))"
    by (simp add: sum.atLeast_Suc_atMost)
  also have "(\<Sum>j = Suc (Suc 0)..Suc k. spec_stripeTerm sfreq (spec_orbit v c z j))
      = (\<Sum>j = Suc 0..k. spec_stripeTerm sfreq (spec_orbit v c z (Suc j)))"
    by (rule sum.shift_bounds_cl_Suc_ivl)
  finally show ?thesis
    using True by (simp add: spec_stripeSum_def orbit_Suc_shift orbit_0)
qed

lemma iterLoop_pass:
  assumes "spec_normSq z < ESCAPE_RADIUS_SQUARED" and "i + 1 \<noteq> maxIter"
  shows "iterLoop (Suc fuel) (fst c) (snd c) maxIter v strp sfreq inner
           (fst z) (snd z) (fst z * fst z) (snd z * snd z) s i
       = iterLoop fuel (fst c) (snd c) maxIter v strp sfreq inner
           (fst (spec_step v c z)) (snd (spec_step v c z))
           (fst (spec_step v c z) * fst (spec_step v c z))
           (snd (spec_step v c z) * snd (spec_step v c z))
           (s + (if strp then spec_stripeTerm sfreq (spec_step v c z) else 0)) (i + 1)"
  using assms
  by (simp add: spec_normSq_def spec_step_def spec_square_def spec_stripeTerm_def Let_def)

lemma iterLoop_advance:
  assumes "\<forall>j<k. spec_normSq (spec_orbit v c z j) < ESCAPE_RADIUS_SQUARED"
    and "\<forall>j. 1 \<le> j \<and> j \<le> k \<longrightarrow> i + int j \<noteq> maxIter"
    and "k \<le> fuel"
  shows "iterLoop fuel (fst c) (snd c) maxIter v strp sfreq inner
           (fst z) (snd z) (fst z * fst z) (snd z * snd z) s i
       = iterLoop (fuel - k) (fst c) (snd c) maxIter v strp sfreq inner
           (fst (spec_orbit v c z k)) (snd (spec_orbit v c z k))
           (fst (spec_orbit v c z k) * fst (spec_orbit v c z k))
           (snd (spec_orbit v c z k) * snd (spec_orbit v c z k))
           (s + spec_stripeSum strp sfreq v c z k) (i + int k)"
  using assms
proof (induction k arbitrary: z s i fuel)
  case 0
  then show ?case by (simp add: orbit_0 stripeAcc_0)
next
  case (Suc k)
  from Suc.prems(3) obtain f where fuel: "fuel = Suc f" and kf: "k \<le> f"
    by (cases fuel) auto
  have z_in: "spec_normSq z < ESCAPE_RADIUS_SQUARED"
    using Suc.prems(1) [rule_format, of 0] by (simp add: orbit_0)
  have cap1: "i + 1 \<noteq> maxIter"
    using Suc.prems(2) [rule_format, of 1] by simp
  have rest_in: "\<forall>j<k. spec_normSq (spec_orbit v c (spec_step v c z) j) < ESCAPE_RADIUS_SQUARED"
    using Suc.prems(1) by (auto simp: orbit_Suc_shift [symmetric])
  have rest_cap: "\<forall>j. 1 \<le> j \<and> j \<le> k \<longrightarrow> (i + 1) + int j \<noteq> maxIter"
  proof (intro allI impI)
    fix j assume "1 \<le> j \<and> j \<le> k"
    then show "(i + 1) + int j \<noteq> maxIter"
      using Suc.prems(2) [rule_format, of "Suc j"] by simp
  qed
  show ?case
    unfolding fuel
    apply (subst iterLoop_pass [OF z_in cap1])
    apply (subst Suc.IH [OF rest_in rest_cap kf])
    apply (simp add: orbit_Suc_shift stripeAcc_Suc_shift add.assoc)
    done
qed



lemma iterLoop_capped:
  assumes "spec_normSq z < ESCAPE_RADIUS_SQUARED" and "i + 1 = maxIter"
  shows "iterLoop (Suc fuel) (fst c) (snd c) maxIter v strp sfreq inner
           (fst z) (snd z) (fst z * fst z) (snd z * snd z) s i
       = (if inner then
            Some \<lparr> iteration = maxIter,
                   smoothIteration = smoothValue maxIter (spec_normSq (spec_step v c z)),
                   stripeSum = Some (s + (if strp then spec_stripeTerm sfreq (spec_step v c z) else 0)) \<rparr>
          else Some \<lparr> iteration = -1, smoothIteration = None, stripeSum = None \<rparr>)"
  using assms
  by (simp add: spec_normSq_def spec_step_def spec_square_def spec_stripeTerm_def Let_def)

lemma smoothValue_escaped:
  assumes "ESCAPE_RADIUS_SQUARED \<le> m"
  shows "smoothValue i m = Some (real_of_int i + 1 - ln (ln m / 2) / ln 2)"
proof -
  have "1 < m" using assms by (simp add: ESCAPE_RADIUS_SQUARED_def)
  then have "0 < ln m" by simp
  then show ?thesis using \<open>1 < m\<close> by (simp add: smoothValue_def log_d_def)
qed

lemma calculateFractal_unpruned:
  assumes "\<not> prunes inner isJulia ftype cr ci"
  shows "calculateFractal fuel cr ci jr ji maxIter isJulia ftype strp sfreq inner
       = iterLoop fuel (fst (spec_constant isJulia cr ci jr ji)) (snd (spec_constant isJulia cr ci jr ji))
           maxIter ftype strp sfreq inner
           (fst (spec_start isJulia cr ci)) (snd (spec_start isJulia cr ci))
           (fst (spec_start isJulia cr ci) * fst (spec_start isJulia cr ci))
           (snd (spec_start isJulia cr ci) * snd (spec_start isJulia cr ci)) 0 0"
  using assms
  by (auto simp: calculateFractal_def prunes_def spec_start_def spec_constant_def Let_def)

lemma calculateFractal_pruned:
  assumes "prunes inner isJulia ftype cr ci"
  shows "calculateFractal fuel cr ci jr ji maxIter isJulia ftype strp sfreq inner
       = Some \<lparr> iteration = -1, smoothIteration = None, stripeSum = None \<rparr>"
  using assms by (auto simp: calculateFractal_def prunes_def Let_def)


text \<open>No escape before the cap: the loop returns inside its pass number \<open>maxIter\<close>.\<close>

lemma iterLoop_cap_at:
  assumes inside: "\<forall>j<nat maxIter. spec_normSq (spec_orbit v c z j) < ESCAPE_RADIUS_SQUARED"
    and pos: "1 \<le> maxIter" and fuel: "nat maxIter \<le> fuel"
  shows "iterLoop fuel (fst c) (snd c) maxIter v strp sfreq inner
           (fst z) (snd z) (fst z * fst z) (snd z * snd z) 0 0
       = (if inner then
            Some \<lparr> iteration = maxIter,
                   smoothIteration = smoothValue maxIter (spec_normSq (spec_orbit v c z (nat maxIter))),
                   stripeSum = Some (spec_stripeSum strp sfreq v c z (nat maxIter)) \<rparr>
          else Some \<lparr> iteration = -1, smoothIteration = None, stripeSum = None \<rparr>)"
proof -
  obtain k where k: "nat maxIter = Suc k"
    using pos by (cases "nat maxIter") auto
  then have mk: "maxIter = int k + 1" using pos by linarith
  have inside_k: "\<forall>j<k. spec_normSq (spec_orbit v c z j) < ESCAPE_RADIUS_SQUARED"
    using inside k by simp
  have nocap: "\<forall>j. 1 \<le> j \<and> j \<le> k \<longrightarrow> 0 + int j \<noteq> maxIter"
    using mk by auto
  have kf: "k \<le> fuel" using fuel k by simp
  obtain f where f: "fuel - k = Suc f"
    using fuel k by (cases "fuel - k") auto
  have last_in: "spec_normSq (spec_orbit v c z k) < ESCAPE_RADIUS_SQUARED"
    using inside k by simp
  have last_cap: "0 + int k + 1 = maxIter" using mk by simp
  have step: "spec_step v c (spec_orbit v c z k) = spec_orbit v c z (Suc k)"
    by (simp add: spec_orbit_def)
  have acc: "0 + spec_stripeSum strp sfreq v c z k
              + (if strp then spec_stripeTerm sfreq (spec_orbit v c z (Suc k)) else 0)
           = spec_stripeSum strp sfreq v c z (Suc k)"
    by (simp add: spec_stripeSum_def)
  have "iterLoop fuel (fst c) (snd c) maxIter v strp sfreq inner
           (fst z) (snd z) (fst z * fst z) (snd z * snd z) 0 0
       = iterLoop (Suc f) (fst c) (snd c) maxIter v strp sfreq inner
           (fst (spec_orbit v c z k)) (snd (spec_orbit v c z k))
           (fst (spec_orbit v c z k) * fst (spec_orbit v c z k))
           (snd (spec_orbit v c z k) * snd (spec_orbit v c z k))
           (0 + spec_stripeSum strp sfreq v c z k) (0 + int k)"
    by (rule iterLoop_advance [OF inside_k nocap kf, unfolded f])
  also have "\<dots> = (if inner then
            Some \<lparr> iteration = maxIter,
                   smoothIteration = smoothValue maxIter (spec_normSq (spec_step v c (spec_orbit v c z k))),
                   stripeSum = Some (0 + spec_stripeSum strp sfreq v c z k
                     + (if strp then spec_stripeTerm sfreq (spec_step v c (spec_orbit v c z k)) else 0)) \<rparr>
          else Some \<lparr> iteration = -1, smoothIteration = None, stripeSum = None \<rparr>)"
    by (rule iterLoop_capped [OF last_in last_cap])
  finally show ?thesis
    unfolding acc step k .
qed





section \<open>Termination\<close>

lemma iterLoop_enough:
  assumes "nat (maxIter - i) = n" and "i < maxIter" and "n \<le> fuel"
  shows "\<exists>r. iterLoop fuel cra cia maxIter v strp sfreq inner zr zi zr2 zi2 s i = Some r
           \<and> iterLoop n cra cia maxIter v strp sfreq inner zr zi zr2 zi2 s i = Some r"
  using assms
proof (induction n arbitrary: fuel zr zi zr2 zi2 s i)
  case 0
  then show ?case by simp
next
  case (Suc m)
  from Suc.prems(3) obtain f where fuel: "fuel = Suc f" and mf: "m \<le> f"
    by (cases fuel) auto
  show ?case
  proof (cases "zr2 + zi2 < ESCAPE_RADIUS_SQUARED")
    case False
    then show ?thesis by (simp add: fuel)
  next
    case inside: True
    show ?thesis
    proof (cases "i + 1 = maxIter")
      case True
      with inside show ?thesis by (simp add: fuel Let_def)
    next
      case False
      with Suc.prems have m: "nat (maxIter - (i + 1)) = m" and lt: "i + 1 < maxIter"
        by linarith+
      from inside False Suc.IH [OF m lt mf] show ?thesis
        by (simp add: fuel Let_def)
    qed
  qed
qed

text \<open>
  Claim C10. With an iteration cap of at least 1, \<open>calculateFractal\<close> returns, and its loop
  makes at most \<open>maxIter\<close> passes: each pass takes one unit of fuel, \<open>maxIter\<close> units are
  enough, and more fuel does not change the result.
\<close>

theorem calculateFractal_terminates:
  "1 \<le> maxIter \<and> nat maxIter \<le> fuel \<longrightarrow>
     (\<exists>r. calculateFractal fuel cr ci jr ji maxIter isJulia ftype strp sfreq inner = Some r
        \<and> calculateFractal (nat maxIter) cr ci jr ji maxIter isJulia ftype strp sfreq inner
            = Some r)"
proof
  assume h: "1 \<le> maxIter \<and> nat maxIter \<le> fuel"
  then have n: "nat (maxIter - 0) = nat maxIter" and lt: "0 < maxIter" and f: "nat maxIter \<le> fuel"
    by simp_all
  show "\<exists>r. calculateFractal fuel cr ci jr ji maxIter isJulia ftype strp sfreq inner = Some r
        \<and> calculateFractal (nat maxIter) cr ci jr ji maxIter isJulia ftype strp sfreq inner
            = Some r"
  proof (cases "prunes inner isJulia ftype cr ci")
    case True
    then show ?thesis by (simp add: calculateFractal_pruned)
  next
    case False
    then show ?thesis
      unfolding calculateFractal_unpruned [OF False]
      by (intro iterLoop_enough [OF n lt f])
  qed
qed

theorem calculateFractal_terminates_witness:
  "\<exists>r. calculateFractal 200 (1/2) (1/2) 0 0 128 False 0 False 5 False = Some r
      \<and> calculateFractal 128 (1/2) (1/2) 0 0 128 False 0 False 5 False = Some r"
  using calculateFractal_terminates [of 128 200 "1/2" "1/2" 0 0 False 0 False 5 False]
  by simp

section \<open>Points that reach the cap\<close>

lemma shade_interior:
  "shade state palette \<lparr> iteration = -1, smoothIteration = None, stripeSum = None \<rparr>
     = Inr (Color 0 0 0)"
  by (simp add: shade_def)

text \<open>
  Claim C5. A sample point whose orbit stays below the escape radius for \<open>maxIterations\<close>
  iterations: with interior colouring off the evaluator reports the interior
  (\<open>iteration = -1\<close>) and the sample is black whatever the palette and the other settings;
  with interior colouring on it returns the iteration \<open>maxIterations\<close> with the smoothed
  value and the stripe sum that the escape exit computes, taken at that iteration.
\<close>

theorem calculateFractal_at_cap:
  "1 \<le> maxIterations state \<and> nat (maxIterations state) \<le> fuel
   \<and> (\<forall>j \<le> nat (maxIterations state).
         spec_normSq (spec_orbit (fractalType state)
                   (spec_constant (showJulia state) cr ci (juliaX state) (juliaY state))
                   (spec_start (showJulia state) cr ci) j) < ESCAPE_RADIUS_SQUARED)
   \<longrightarrow>
   (\<not> innerCalculation state \<longrightarrow>
      calculateFractal fuel cr ci (juliaX state) (juliaY state) (maxIterations state)
          (showJulia state) (fractalType state) (stripes state) (stripeFrequency state)
          (innerCalculation state)
        = Some \<lparr> iteration = -1, smoothIteration = None, stripeSum = None \<rparr>
      \<and> (\<forall>palette. sampleColor fuel state palette cr ci = Some (Inr (Color 0 0 0))))
   \<and> (innerCalculation state \<longrightarrow>
      calculateFractal fuel cr ci (juliaX state) (juliaY state) (maxIterations state)
          (showJulia state) (fractalType state) (stripes state) (stripeFrequency state)
          (innerCalculation state)
        = Some \<lparr> iteration = maxIterations state,
                  smoothIteration = smoothValue (maxIterations state)
                    (spec_normSq (spec_orbit (fractalType state)
                       (spec_constant (showJulia state) cr ci (juliaX state) (juliaY state))
                       (spec_start (showJulia state) cr ci) (nat (maxIterations state)))),
                  stripeSum = Some (spec_stripeSum (stripes state) (stripeFrequency state)
                       (fractalType state)
                       (spec_constant (showJulia state) cr ci (juliaX state) (juliaY state))
                       (spec_start (showJulia state) cr ci) (nat (maxIterations state))) \<rparr>)"
proof (intro impI)
  assume h: "1 \<le> maxIterations state \<and> nat (maxIterations state) \<le> fuel
   \<and> (\<forall>j \<le> nat (maxIterations state).
         spec_normSq (spec_orbit (fractalType state)
                   (spec_constant (showJulia state) cr ci (juliaX state) (juliaY state))
                   (spec_start (showJulia state) cr ci) j) < ESCAPE_RADIUS_SQUARED)"
  then have pos: "1 \<le> maxIterations state" and fuel: "nat (maxIterations state) \<le> fuel"
    and inside: "\<forall>j < nat (maxIterations state).
         spec_normSq (spec_orbit (fractalType state)
                   (spec_constant (showJulia state) cr ci (juliaX state) (juliaY state))
                   (spec_start (showJulia state) cr ci) j) < ESCAPE_RADIUS_SQUARED"
    by auto
  let ?call = "calculateFractal fuel cr ci (juliaX state) (juliaY state) (maxIterations state)
          (showJulia state) (fractalType state) (stripes state) (stripeFrequency state)
          (innerCalculation state)"
  have off: "?call = Some \<lparr> iteration = -1, smoothIteration = None, stripeSum = None \<rparr>"
    if "\<not> innerCalculation state"
  proof (cases "prunes (innerCalculation state) (showJulia state) (fractalType state) cr ci")
    case True
    then show ?thesis by (rule calculateFractal_pruned)
  next
    case False
    show ?thesis
      unfolding calculateFractal_unpruned [OF False] iterLoop_cap_at [OF inside pos fuel]
      using that by simp
  qed
  have on: "?call = Some \<lparr> iteration = maxIterations state,
                  smoothIteration = smoothValue (maxIterations state)
                    (spec_normSq (spec_orbit (fractalType state)
                       (spec_constant (showJulia state) cr ci (juliaX state) (juliaY state))
                       (spec_start (showJulia state) cr ci) (nat (maxIterations state)))),
                  stripeSum = Some (spec_stripeSum (stripes state) (stripeFrequency state)
                       (fractalType state)
                       (spec_constant (showJulia state) cr ci (juliaX state) (juliaY state))
                       (spec_start (showJulia state) cr ci) (nat (maxIterations state))) \<rparr>"
    if "innerCalculation state"
  proof -
    have np: "\<not> prunes (innerCalculation state) (showJulia state) (fractalType state) cr ci"
      using that by (simp add: prunes_def)
    show ?thesis
      unfolding calculateFractal_unpruned [OF np] iterLoop_cap_at [OF inside pos fuel]
      using that by simp
  qed
  show "(\<not> innerCalculation state \<longrightarrow>
      ?call = Some \<lparr> iteration = -1, smoothIteration = None, stripeSum = None \<rparr>
      \<and> (\<forall>palette. sampleColor fuel state palette cr ci = Some (Inr (Color 0 0 0))))
   \<and> (innerCalculation state \<longrightarrow>
      ?call = Some \<lparr> iteration = maxIterations state,
                  smoothIteration = smoothValue (maxIterations state)
                    (spec_normSq (spec_orbit (fractalType state)
                       (spec_constant (showJulia state) cr ci (juliaX state) (juliaY state))
                       (spec_start (showJulia state) cr ci) (nat (maxIterations state)))),
                  stripeSum = Some (spec_stripeSum (stripes state) (stripeFrequency state)
                       (fractalType state)
                       (spec_constant (showJulia state) cr ci (juliaX state) (juliaY state))
                       (spec_start (showJulia state) cr ci) (nat (maxIterations state))) \<rparr>)"
    using off on by (simp add: sampleColor_def shade_interior)
qed

lemma orbit_2_0:
  "spec_orbit 0 (2, 0) (0, 0) 0 = (0, 0)" "spec_orbit 0 (2, 0) (0, 0) (Suc 0) = (2, 0)"
  "spec_orbit 0 (2, 0) (0, 0) (Suc (Suc 0)) = (6, 0)"
  by (simp_all add: spec_orbit_def spec_step_def spec_square_def)

theorem calculateFractal_at_cap_witness:
  "calculateFractal 2 2 0 (-0.8) 0.156 2 False 0 False 5 False
     = Some \<lparr> iteration = -1, smoothIteration = None, stripeSum = None \<rparr>
   \<and> sampleColor 2 (defaultState \<lparr> maxIterations := 2 \<rparr>) (PALETTES ! 0) 2 0
       = Some (Inr (Color 0 0 0))
   \<and> calculateFractal 2 2 0 (-0.8) 0.156 2 False 0 False 5 True
     = Some \<lparr> iteration = 2, smoothIteration = Some (3 - ln (ln 36 / 2) / ln 2),
               stripeSum = Some 0 \<rparr>"
proof -
  have le2: "j \<le> 2 \<Longrightarrow> j = 0 \<or> j = Suc 0 \<or> j = Suc (Suc 0)" for j :: nat
    by arith
  have inside: "\<forall>j \<le> nat 2. spec_normSq (spec_orbit 0 (2, 0) (0, 0) j) < ESCAPE_RADIUS_SQUARED"
  proof (intro allI impI)
    fix j :: nat assume "j \<le> nat 2"
    then have "j = 0 \<or> j = Suc 0 \<or> j = Suc (Suc 0)" using le2 by simp
    then show "spec_normSq (spec_orbit 0 (2, 0) (0, 0) j) < ESCAPE_RADIUS_SQUARED"
      by (auto simp: orbit_2_0 spec_normSq_def ESCAPE_RADIUS_SQUARED_def)
  qed
  have sv: "smoothValue 2 36 = Some (3 - ln (ln 36 / 2) / ln 2)"
    by (simp add: smoothValue_def log_d_def)
  have a: "calculateFractal 2 2 0 (-0.8) 0.156 2 False 0 False 5 False
      = Some \<lparr> iteration = -1, smoothIteration = None, stripeSum = None \<rparr>
     \<and> sampleColor 2 (defaultState \<lparr> maxIterations := 2 \<rparr>) (PALETTES ! 0) 2 0
       = Some (Inr (Color 0 0 0))"
    using calculateFractal_at_cap [of "defaultState \<lparr> maxIterations := 2 \<rparr>" 2 2 0] inside
    by (simp add: defaultState_def spec_constant_def spec_start_def)
  have b: "calculateFractal 2 2 0 (-0.8) 0.156 2 False 0 False 5 True
     = Some \<lparr> iteration = 2, smoothIteration = Some (3 - ln (ln 36 / 2) / ln 2),
               stripeSum = Some 0 \<rparr>"
    using calculateFractal_at_cap
      [of "defaultState \<lparr> maxIterations := 2, innerCalculation := True \<rparr>" 2 2 0] inside
    by (simp add: defaultState_def spec_constant_def spec_start_def orbit_2_0 numeral_2_eq_2
        spec_normSq_def spec_stripeSum_def sv)
  from a b show ?thesis by simp
qed


section \<open>Colour mapping\<close>

lemma palette0: "PALETTES ! 0 =
     [Color 66 30 15, Color 25 7 26, Color 9 1 47,
       Color 4 4 73, Color 0 7 100, Color 12 44 138,
       Color 24 82 177, Color 57 125 209, Color 134 181 229,
       Color 211 236 248, Color 241 233 191, Color 248 201 95,
       Color 255 170 0, Color 204 128 0, Color 153 87 0]"
  by (simp add: PALETTES_def)


lemma interp_a: "interpolateColors (Color 66 30 15) (Color 25 7 26) (1/2) = Inr (Color 45 18 20)"
  by (simp add: interpolateColors_def toUint8_def trunc_def)

lemma interp_b: "interpolateColors (Color 153 87 0) (Color 66 30 15) (1/2) = Inr (Color 109 58 7)"
  by (simp add: interpolateColors_def toUint8_def trunc_def)

lemma ceil_half: "\<lceil>- (1 / 2) :: real\<rceil> = 0"
  by (simp add: ceiling_eq_iff)

lemma floor_half: "\<lfloor>- (1 / 2) :: real\<rfloor> = - 1"
  by (simp add: floor_eq_iff)

lemma toInt_half: "toInt (- (1 / 2)) = Inr 0"
  by (simp add: toInt_def trunc_def ceil_half)

lemma code_half: "colorFor (- 1 / 2) (PALETTES ! 0) = Inr (Color 45 18 20)"
  using interp_a
  by (simp add: palette0 colorFor_def toInt_half toSizeT_def Let_def floor_half)

lemma spec_half: "spec_colorFor (- 1 / 2) (PALETTES ! 0) = Inr (Color 109 58 7)"
  using interp_b
  by (simp add: palette0 spec_colorFor_def Let_def floor_half)

lemma floor_shift: "\<lfloor>29 / 2 :: real\<rfloor> = 14"
  by (simp add: floor_eq_iff)

lemma toInt_shift: "toInt (29 / 2) = Inr 14"
  by (simp add: toInt_def trunc_def floor_shift)

lemma code_shift: "colorFor (- 1 / 2 + 1 * 15) (PALETTES ! 0) = Inr (Color 109 58 7)"
  using interp_b
  by (simp add: palette0 colorFor_def toInt_shift toSizeT_def Let_def floor_shift)


lemma toSizeT_small: "0 \<le> k \<Longrightarrow> k < 2 ^ 64 \<Longrightarrow> toSizeT k = k"
  by (simp add: toSizeT_def)

lemma toInt_nonneg:
  assumes "0 \<le> m" and "m < 2147483648"
  shows "toInt m = Inr \<lfloor>m\<rfloor>"
  using assms by (simp add: toInt_def trunc_def)

lemma floor_below_2_31:
  assumes "0 \<le> m" and "m < 2147483648"
  shows "0 \<le> \<lfloor>m\<rfloor> \<and> \<lfloor>m\<rfloor> < 2 ^ 64"
proof -
  have "\<lfloor>m\<rfloor> < 2147483648" using assms(2) by (simp add: floor_less_iff)
  moreover have "0 \<le> \<lfloor>m\<rfloor>" using assms(1) by simp
  ultimately show ?thesis by simp
qed

lemma index_succ_small:
  assumes "0 < n" and "n \<le> 2 ^ 63"
  shows "toSizeT (k mod n + 1) = k mod n + (1::int)"
proof -
  have "0 \<le> k mod n" "k mod n < n" using assms(1) by simp_all
  then show ?thesis using assms(2) by (intro toSizeT_small) auto
qed

text \<open>On a metric in \<open>[0, 2\<^sup>3\<^sup>1)\<close> the code is the floor-based mapping.\<close>

lemma colorFor_nonneg:
  assumes "0 \<le> m" and "m < 2147483648" and "palette \<noteq> []"
    and "int (length palette) \<le> 2 ^ 63"
  shows "colorFor m palette = spec_colorFor m palette"
proof -
  have n: "0 < int (length palette)" using assms(3) by simp
  have fl: "toSizeT \<lfloor>m\<rfloor> = \<lfloor>m\<rfloor>"
    using floor_below_2_31 [OF assms(1,2)] by (simp add: toSizeT_small)
  show ?thesis
    using assms(3)
    by (simp add: colorFor_def spec_colorFor_def toInt_nonneg [OF assms(1,2)] fl Let_def
        index_succ_small [OF n assms(4)])
qed

lemma floor_add_mult:
  "\<lfloor>m + real k * real n\<rfloor> = \<lfloor>m\<rfloor> + int k * int n"
proof -
  have "m + real k * real n = m + real_of_int (int k * int n)" by simp
  then show ?thesis by (metis floor_add_int)
qed

text \<open>And there it is cyclic in the palette length.\<close>

lemma colorFor_cyclic_nonneg:
  assumes "0 \<le> m" and "m + real k * real (length palette) < 2147483648" and "palette \<noteq> []"
    and "int (length palette) \<le> 2 ^ 63"
  shows "colorFor (m + real k * real (length palette)) palette = colorFor m palette"
proof -
  have m2: "m < 2147483648"
  proof -
    have "0 \<le> real k * real (length palette)" by simp
    then show ?thesis using assms(2) by linarith
  qed
  have p: "0 \<le> m + real k * real (length palette)" using assms(1) by simp
  have "colorFor (m + real k * real (length palette)) palette
      = spec_colorFor (m + real k * real (length palette)) palette"
    by (rule colorFor_nonneg [OF p assms(2) assms(3) assms(4)])
  also have "\<dots> = spec_colorFor m palette"
    by (simp add: spec_colorFor_def floor_add_mult Let_def)
  also have "\<dots> = colorFor m palette"
    by (rule colorFor_nonneg [OF assms(1) m2 assms(3) assms(4), symmetric])
  finally show ?thesis .
qed

text \<open>A metric strictly between \<open>-1\<close> and \<open>0\<close> gets the index \<open>0\<close>, not the last one.\<close>

lemma colorFor_between:
  assumes "- 1 < m" and "m < 0" and "palette \<noteq> []"
  shows "colorFor m palette
       = interpolateColors (palette ! 0) (palette ! nat (1 mod int (length palette))) (m + 1)"
proof -
  have c: "\<lceil>m\<rceil> = 0" using assms by (simp add: ceiling_eq_iff)
  have f: "\<lfloor>m\<rfloor> = - 1" using assms by (simp add: floor_eq_iff)
  have t: "toInt m = Inr 0" using assms by (simp add: toInt_def trunc_def c)
  show ?thesis
    using assms(3) by (simp add: colorFor_def t toSizeT_def Let_def f)
qed


lemma ln_10000_bounds: "8 < ln (10000::real)" "ln (10000::real) < 256"
proof -
  have "exp (8::real) = exp 1 ^ 8"
    using exp_of_nat_mult [of 8 "1::real"] by simp
  also have "\<dots> \<le> 3 ^ 8"
    by (intro power_mono exp_le) simp
  also have "\<dots> < (10000::real)" by simp
  finally have "ln (exp (8::real)) < ln 10000"
    by (subst ln_less_cancel_iff) simp_all
  then show "8 < ln (10000::real)" by simp
  have "ln (10000::real) = ln (10 ^ 4)" by simp
  also have "\<dots> = 4 * ln 10" by (simp only: ln_realpow of_nat_numeral)
  also have "\<dots> \<le> 4 * (10 - 1)"
    using ln_le_minus_one [of "10::real"] by simp
  finally show "ln (10000::real) < 256" by simp
qed

lemma smooth_at_100:
  "- 5 < 2 - ln (ln 10000 / 2) / ln (2::real)" "2 - ln (ln 10000 / 2) / ln (2::real) < 0"
proof -
  let ?a = "ln 10000 / (2::real)"
  have a: "4 < ?a" "?a < 128" using ln_10000_bounds by simp_all
  have "log 2 4 < log 2 ?a" using a by simp
  moreover have "log 2 (4::real) = 2"
    using log_nat_power [of 2 2 2] by simp
  ultimately have lo: "2 < ln ?a / ln 2" by (simp add: log_def)
  have "log 2 ?a < log 2 128" using a by simp
  moreover have "log 2 (128::real) = 7"
    using log_nat_power [of 2 2 7] by simp
  ultimately have hi: "ln ?a / ln 2 < 7" by (simp add: log_def)
  show "- 5 < 2 - ln ?a / ln (2::real)" using hi by simp
  show "2 - ln ?a / ln (2::real) < 0" using lo by simp
qed

text \<open>
  Such a metric arises: the default state at the sample point \<open>100 + 0i\<close>, which escapes in
  the first pass.
\<close>

lemma sampleColor_negative_metric:
  "\<exists>m. - 1 < m \<and> m < 0
     \<and> sampleColor 1 defaultState (PALETTES ! 0) 100 0 = Some (colorFor m (PALETTES ! 0))"
proof -
  let ?v = "2 - ln (ln 10000 / 2) / ln (2::real)"
  have sv: "smoothValue 1 10000 = Some ?v"
    using smoothValue_escaped [of 10000 1] by (simp add: ESCAPE_RADIUS_SQUARED_def)
  have call: "calculateFractal 1 100 0 (-0.8) 0.156 128 False 0 False 5 False
      = Some \<lparr> iteration = 1, smoothIteration = Some ?v, stripeSum = Some 0 \<rparr>"
    using sv
    by (simp add: calculateFractal_def cardioidCheck_def bulbCheck_def Let_def
        ESCAPE_RADIUS_SQUARED_def)
  have "sampleColor 1 defaultState (PALETTES ! 0) 100 0
      = Some (colorFor (?v * 0.2) (PALETTES ! 0))"
    using call by (simp add: sampleColor_def defaultState_def shade_def)
  moreover have "- 1 < ?v * 0.2" "?v * 0.2 < 0"
    using smooth_at_100 by simp_all
  ultimately show ?thesis by blast
qed

lemma julia_far_call:
  "calculateFractal 128 (1000 - 3 * ASPECT_RATIO / 2) (- 3 / 2) (-0.8) 0.156 128 True 0 True 5 False
     = Some \<lparr> iteration = 0,
               smoothIteration = smoothValue 0 ((1000 - 3 * ASPECT_RATIO / 2) * (1000 - 3 * ASPECT_RATIO / 2)
                                                 + (- 3 / 2) * (- 3 / 2)),
               stripeSum = Some 0 \<rparr>"
  by (simp add: calculateFractal_def Let_def ESCAPE_RADIUS_SQUARED_def ASPECT_RATIO_def
      WINDOW_WIDTH_def WINDOW_HEIGHT_def eval_nat_numeral)

lemma julia_far_pixel:
  "pixelColor 128 juliaStripeState (PALETTES ! 0) 0 0 WINDOW_WIDTH WINDOW_HEIGHT
     = Some (Inl DivisionByZero)"
  using julia_far_call
  by (simp add: pixelColor_def juliaStripeState_def defaultState_def sampleColor_def
      getViewportWidth_def shade_def Let_def WINDOW_WIDTH_def WINDOW_HEIGHT_def ASPECT_RATIO_def)

text \<open>
  Claim C4 says that the mapped colour interpolates between \<open>palette[index]\<close> and its
  successor with \<open>index = floor(metric) mod paletteSize\<close>, for every real metric. The code
  takes the index from the conversion to \<open>int\<close>, which truncates towards zero, and the
  fraction from \<open>std::floor\<close>: at the metric \<open>-1/2\<close> and the first palette it interpolates
  from entry 0, where the floor-based mapping interpolates from the last entry.
\<close>

theorem colorFor_negative_metric_index:
  "colorFor (- 1 / 2) (PALETTES ! 0) = Inr (Color 45 18 20)
   \<and> spec_colorFor (- 1 / 2) (PALETTES ! 0) = Inr (Color 109 58 7)"
  using code_half spec_half by simp

text \<open>
  Claim C9 says that the colour mapping is cyclic, \<open>colorFor(metric + k * paletteSize)\<close>
  equal to \<open>colorFor(metric)\<close> for every metric and integer \<open>k\<close>. At the metric \<open>-1/2\<close>,
  \<open>k = 1\<close> and the first palette the code gives two different colours.
\<close>

theorem colorFor_negative_metric_shift:
  "colorFor (- 1 / 2) (PALETTES ! 0) = Inr (Color 45 18 20)
   \<and> colorFor (- 1 / 2 + 1 * real (length (PALETTES ! 0))) (PALETTES ! 0) = Inr (Color 109 58 7)"
  using code_half code_shift by (simp add: palette0)

section \<open>Divisions of the colouring\<close>

text \<open>The palette that \<open>renderFractalRegion\<close> selects is never empty.\<close>

lemma palette_nonempty: "PALETTES ! nat (toSizeT cs mod int (length PALETTES)) \<noteq> []"
proof -
  have "toSizeT cs mod 2 = 0 \<or> toSizeT cs mod 2 = 1" by presburger
  then show ?thesis by (auto simp: PALETTES_def)
qed

lemma iterLoop_iteration:
  "iterLoop fuel cra cia maxIter v strp sfreq inner zr zi zr2 zi2 s i = Some r
     \<Longrightarrow> iteration r = - 1 \<or> i \<le> iteration r"
proof (induction fuel arbitrary: zr zi zr2 zi2 s i)
  case 0
  then show ?case by (auto split: if_splits)
next
  case (Suc fuel)
  show ?case
  proof (cases "zr2 + zi2 < ESCAPE_RADIUS_SQUARED")
    case False
    with Suc.prems show ?thesis by auto
  next
    case inside: True
    show ?thesis
    proof (cases "i + 1 = maxIter")
      case True
      with inside Suc.prems show ?thesis by (auto simp: Let_def split: if_splits)
    next
      case False
      with inside Suc.prems have "iteration r = - 1 \<or> i + 1 \<le> iteration r"
        by (intro Suc.IH) (simp add: Let_def)
      then show ?thesis by auto
    qed
  qed
qed

text \<open>In Mandelbrot mode the loop is entered, so a count that is not \<open>-1\<close> is at least 1.\<close>

lemma mandelbrot_iteration_positive:
  assumes "calculateFractal fuel cr ci jr ji maxIter False ftype strp sfreq inner = Some r"
  shows "iteration r = - 1 \<or> 1 \<le> iteration r"
proof (cases "prunes inner False ftype cr ci")
  case True
  with assms show ?thesis by (auto simp: calculateFractal_pruned)
next
  case False
  have run: "iterLoop fuel cr ci maxIter ftype strp sfreq inner 0 0 0 0 0 0 = Some r"
    using assms calculateFractal_unpruned [OF False, of fuel jr ji maxIter strp sfreq]
    by (simp add: spec_constant_def spec_start_def)
  show ?thesis
  proof (cases fuel)
    case 0
    with run show ?thesis by (simp add: ESCAPE_RADIUS_SQUARED_def)
  next
    case (Suc f)
    show ?thesis
    proof (cases "1 = maxIter")
      case True
      with run Suc show ?thesis
        by (auto simp: Let_def ESCAPE_RADIUS_SQUARED_def split: if_splits)
    next
      case False
      with run Suc have "iteration r = - 1 \<or> 0 + 1 \<le> iteration r"
        by (intro iterLoop_iteration [where fuel = f]) (simp add: Let_def ESCAPE_RADIUS_SQUARED_def)
      then show ?thesis by simp
    qed
  qed
qed

text \<open>
  Claim C3 says that no division by zero is reachable in the colouring: the iteration count
  that divides the stripe sum is at least 1. In Julia mode a pixel whose sample point lies
  on or outside the escape circle leaves the loop before its first pass: the call returns
  the count 0 and the stripe branch divides by it.
\<close>

theorem julia_stripe_division_by_zero:
  "(\<exists>r. calculateFractal 128 (1000 - 3 * ASPECT_RATIO / 2) (- 3 / 2) (juliaX juliaStripeState)
          (juliaY juliaStripeState) (maxIterations juliaStripeState) (showJulia juliaStripeState)
          (fractalType juliaStripeState) (stripes juliaStripeState)
          (stripeFrequency juliaStripeState) (innerCalculation juliaStripeState) = Some r
        \<and> iteration r = 0)
   \<and> pixelColor 128 juliaStripeState (PALETTES ! 0) 0 0 WINDOW_WIDTH WINDOW_HEIGHT
       = Some (Inl DivisionByZero)"
  using julia_far_call julia_far_pixel
  by (simp add: juliaStripeState_def defaultState_def)

section \<open>The iteration controller\<close>

lemma floor_clamp:
  "max 100 (min 10000 \<lfloor>x::real\<rfloor>) = \<lfloor>max 100 (min 10000 x)\<rfloor>"
proof -
  have a: "\<lfloor>min 10000 x\<rfloor> = min 10000 \<lfloor>x\<rfloor>"
    by (cases "x < 10000") (auto simp: min_def floor_less_iff le_floor_iff not_less)
  have b: "\<lfloor>max 100 y\<rfloor> = max 100 \<lfloor>y\<rfloor>" for y :: real
    by (cases "y < 100") (auto simp: max_def floor_less_iff le_floor_iff not_less)
  show ?thesis by (simp add: a b)
qed

lemma clamp_low: "X < 100 \<Longrightarrow> max 100 (min 10000 X) = (100::real)"
  by (simp add: max_def min_def)

lemma clamp_mid: "100 \<le> X \<Longrightarrow> X \<le> 10000 \<Longrightarrow> max 100 (min 10000 X) = (X::real)"
  by (simp add: max_def min_def)

lemma trunc_nonneg: "0 \<le> x \<Longrightarrow> trunc x = \<lfloor>x\<rfloor>"
  by (simp add: trunc_def)

lemma half_unit: "(a - 2) * P + P = (a - 1) * (P::real)"
  by (simp add: algebra_simps)

lemma below_next: "q < (a - 1) * P \<Longrightarrow> 1 \<le> P \<Longrightarrow> 1 + q \<le> a * (P::real)"
  by (simp add: algebra_simps)

lemma mult_ge_self: "1 \<le> a - 1 \<Longrightarrow> 0 \<le> P \<Longrightarrow> P \<le> (a - 1) * (P::real)"
  using mult_right_mono [of 1 "a - 1" P] by simp

lemma log10_lower:
  fixes x :: real
  assumes "0 < x" and "10 ^ n \<le> x"
  shows "100 * real n \<le> 100 * log 10 x"
proof -
  have "log 10 ((10::real) ^ n) \<le> log 10 x"
    using assms by (subst log_le_cancel_iff) simp_all
  moreover have "log 10 ((10::real) ^ n) = real n * log 10 10" by (rule log_nat_power) simp
  ultimately show ?thesis by simp
qed

lemma clamp_high: "10000 \<le> (x::real) \<Longrightarrow> trunc (max 100 (min 10000 x)) = 10000"
  by (simp add: trunc_def)

lemma adjust_value:
  assumes auto: "autoIterations state" and pos: "0 < viewportHeight state"
    and fin: "\<not> overflows (3 / viewportHeight state)"
    and rng: "100 * log 10 (1 + 3 / viewportHeight state) < 2147483648"
  shows "adjustIterations state
       = Inr (state\<lparr> maxIterations :=
                trunc (max 100 (min 10000 (100 * log 10 (1 + 3 / viewportHeight state)))) \<rparr>)"
proof -
  let ?x = "100 * log 10 (1 + 3 / viewportHeight state)"
  have gt1: "1 < 1 + 3 / viewportHeight state" using pos by simp
  have gt0: "0 < 1 + 3 / viewportHeight state" using pos by (simp add: add_pos_pos)
  have "0 < log 10 (1 + 3 / viewportHeight state) \<longleftrightarrow> 1 < 1 + 3 / viewportHeight state"
    by (rule zero_less_log_cancel_iff) (simp, rule gt0)
  with gt1 have "0 < log 10 (1 + 3 / viewportHeight state)" by blast
  then have x0: "0 \<le> ?x" by simp
  have ti: "toInt ?x = Inr \<lfloor>?x\<rfloor>"
    using x0 rng by (simp add: toInt_def trunc_def)
  have l: "log10_d (1 + 3 / viewportHeight state) = Some (log 10 (1 + 3 / viewportHeight state))"
    using gt0 by (simp add: log10_d_def)
  have c: "0 \<le> max 100 (min 10000 ?x)" by simp
  show ?thesis
    using auto pos fin
    by (simp add: adjustIterations_def l ti Let_def floor_clamp trunc_nonneg [OF c])
qed

lemma log10_bound:
  fixes x :: real
  assumes "0 < x" and "x \<le> 10 ^ n"
  shows "log 10 x \<le> real n"
proof -
  have "log 10 x \<le> log 10 (10 ^ n)"
    using assms by (subst log_le_cancel_iff) simp_all
  also have "\<dots> = real n * log 10 10" by (rule log_nat_power) simp
  finally show ?thesis by simp
qed

lemma threshold_eq: "DBL_MAX + 2 ^ 970 = (2 ^ 54 - 1) * (2::real) ^ 970"
  unfolding DBL_MAX_def by (rule half_unit)

lemma threshold_le: "DBL_MAX + 2 ^ 970 \<le> (2::real) ^ (54 + 970)"
proof -
  have "(2 ^ 54 - 1) * (2::real) ^ 970 \<le> 2 ^ 54 * 2 ^ 970"
    by (rule mult_right_mono) simp_all
  also have "\<dots> = (2::real) ^ (54 + 970)" by (rule power_add [symmetric])
  finally show ?thesis unfolding threshold_eq .
qed

text \<open>A finite quotient keeps the conversion to \<open>int\<close> in range.\<close>

lemma finite_quotient_in_range:
  assumes "0 < (h::real)" and "\<not> overflows (3 / h)"
  shows "100 * log 10 (1 + 3 / h) < 2147483648"
proof -
  have q0: "0 < 3 / h" using assms(1) by simp
  then have "3 / h < DBL_MAX + 2 ^ 970"
    using assms(2) by (simp add: overflows_def)
  then have q: "3 / h < (2 ^ 54 - 1) * (2::real) ^ 970" unfolding threshold_eq .
  have one: "(1::real) \<le> 2 ^ 970" by (rule one_le_power) simp
  have "1 + 3 / h \<le> 2 ^ 54 * (2::real) ^ 970"
    by (rule below_next [OF q one])
  also have "\<dots> = (2::real) ^ (54 + 970)" by (rule power_add [symmetric])
  also have "\<dots> \<le> (10::real) ^ (54 + 970)" by (rule power_mono) simp_all
  finally have le: "1 + 3 / h \<le> 10 ^ (54 + 970)" .
  have gt0: "0 < 1 + 3 / h" using q0 by (simp add: add_pos_pos)
  have "log 10 (1 + 3 / h) \<le> real (54 + 970)" by (rule log10_bound [OF gt0 le])
  then show ?thesis by simp
qed

lemma small_quotient_finite:
  assumes "\<bar>q\<bar> < (2::real) ^ 970"
  shows "\<not> overflows q"
proof -
  have "(2::real) ^ 970 \<le> (2 ^ 54 - 1) * 2 ^ 970"
    by (rule mult_ge_self) simp_all
  then show ?thesis using assms unfolding overflows_def threshold_eq by linarith
qed

lemma ten_10_small: "(10::real) ^ 10 < 2 ^ 970"
proof -
  have "(10::real) ^ 10 < 2 ^ 40" by simp
  also have "\<dots> \<le> (2::real) ^ 970" by (rule power_increasing) simp_all
  finally show ?thesis .
qed

lemma log10_2_lt_1: "log 10 (2::real) < 1"
  by simp

lemma ln_10_gt_1: "1 < ln (10::real)"
proof -
  have "exp (1::real) \<le> 3" by (rule exp_le)
  then have "exp (1::real) < 10" by simp
  then have "ln (exp (1::real)) < ln 10" by (subst ln_less_cancel_iff) simp_all
  then show ?thesis by simp
qed

lemma ln_succ_bound:
  fixes P :: real
  assumes "100 \<le> P"
  shows "ln (1 + P) < ln P + ln 10 / 100"
proof -
  have P0: "0 < P" using assms by simp
  have "1 + P = P * (1 + 1 / P)" using P0 by (simp add: field_simps)
  then have "ln (1 + P) = ln (P * (1 + 1 / P))" by simp
  also have "\<dots> = ln P + ln (1 + 1 / P)"
    using P0 by (intro ln_mult_pos) (simp_all add: add_pos_pos)
  also have "\<dots> \<le> ln P + 1 / P"
    using ln_add_one_self_le_self [of "1 / P"] P0 by simp
  also have "\<dots> \<le> ln P + 1 / 100"
    using assms P0 by (simp add: field_simps)
  also have "\<dots> < ln P + ln 10 / 100" using ln_10_gt_1 by simp
  finally show ?thesis .
qed

lemma log10_big: "10 \<le> log 10 (1 + 10 ^ 10 :: real)" "log 10 (1 + 10 ^ 10 :: real) < 1001 / 100"
proof -
  have p: "log 10 ((10::real) ^ 10) = 10"
    using log_nat_power [of 10 10 10] by simp
  have "log 10 ((10::real) ^ 10) \<le> log 10 (1 + 10 ^ 10)"
    by (subst log_le_cancel_iff) simp_all
  then show "10 \<le> log 10 (1 + 10 ^ 10 :: real)" unfolding p .
  have "ln (1 + 10 ^ 10 :: real) < ln (10 ^ 10) + ln 10 / 100"
    by (rule ln_succ_bound) simp
  also have "ln ((10::real) ^ 10) = 10 * ln 10"
    by (simp only: ln_realpow of_nat_numeral)
  finally have "ln (1 + 10 ^ 10 :: real) < (1001 / 100) * ln 10" by simp
  then show "log 10 (1 + 10 ^ 10 :: real) < 1001 / 100"
    using ln_10_gt_1 by (simp add: log_def field_simps)
qed

text \<open>
  As long as the quotient \<open>3.0 / viewportHeight\<close> is finite, the call sets \<open>maxIterations\<close> to
  \<open>clamp(100 * log10(1 + 3.0/viewportHeight), 100, 10000)\<close> truncated to an integer:
  truncating before the clamp, as the source does, gives the same integer. With
  \<open>autoIterations\<close> clear the call returns the state as it is.
\<close>

lemma adjustIterations_finite:
  assumes "autoIterations state" and "0 < viewportHeight state"
    and "\<not> overflows (3 / viewportHeight state)"
  shows "adjustIterations state
       = Inr (state\<lparr> maxIterations :=
                trunc (max 100 (min 10000 (100 * log 10 (1 + 3 / viewportHeight state)))) \<rparr>)"
  by (rule adjust_value [OF assms finite_quotient_in_range [OF assms(2,3)]])

lemma adjustIterations_off:
  "\<not> autoIterations state \<Longrightarrow> adjustIterations state = Inr state"
  by (simp add: adjustIterations_def)

text \<open>The two heights of the specification: \<open>3.0\<close> gives 100 and \<open>3e-10\<close> gives 1000.\<close>

lemma adjustIterations_at_3:
  assumes a: "autoIterations state" and v: "viewportHeight state = 3"
  shows "adjustIterations state = Inr (state\<lparr> maxIterations := 100 \<rparr>)"
proof -
  have x: "100 * log 10 (1 + 3 / viewportHeight state) = 100 * log 10 2" by (simp add: v)
  have lt: "100 * log 10 (2::real) < 100" using log10_2_lt_1 by simp
  have "max 100 (min 10000 (100 * log 10 (2::real))) = 100" by (rule clamp_low [OF lt])
  then have t: "trunc (max 100 (min 10000 (100 * log 10 (1 + 3 / viewportHeight state)))) = 100"
    by (simp add: x trunc_def)
  have "\<bar>1::real\<bar> < 2 ^ 970" by (simp add: one_less_power)
  then have "\<not> overflows 1" by (rule small_quotient_finite)
  then have f: "\<not> overflows (3 / viewportHeight state)" by (simp add: v)
  have p: "0 < viewportHeight state" by (simp add: v)
  show ?thesis using adjustIterations_finite [OF a p f] unfolding t .
qed

lemma adjustIterations_at_3e_10:
  assumes a: "autoIterations state" and v: "viewportHeight state = 3 / 10 ^ 10"
  shows "adjustIterations state = Inr (state\<lparr> maxIterations := 1000 \<rparr>)"
proof -
  have q: "3 / viewportHeight state = 10 ^ 10" by (simp add: v)
  have x: "100 * log 10 (1 + 3 / viewportHeight state) = 100 * log 10 (1 + 10 ^ 10)"
    by (simp add: v)
  have lo: "1000 \<le> 100 * log 10 (1 + 10 ^ 10 :: real)" using log10_big(1) by simp
  have hi: "100 * log 10 (1 + 10 ^ 10 :: real) < 1001" using log10_big(2) by simp
  have m: "max 100 (min 10000 (100 * log 10 (1 + 10 ^ 10 :: real)))
         = 100 * log 10 (1 + 10 ^ 10)"
    by (rule clamp_mid) (use lo hi in linarith)+
  have fl: "\<lfloor>100 * log 10 (1 + 10 ^ 10 :: real)\<rfloor> = 1000"
    using lo hi by (simp add: floor_eq_iff)
  have t: "trunc (max 100 (min 10000 (100 * log 10 (1 + 3 / viewportHeight state)))) = 1000"
    unfolding x m using lo fl by (simp add: trunc_def)
  have "\<bar>(10::real) ^ 10\<bar> < 2 ^ 970" using ten_10_small by simp
  then have "\<not> overflows (10 ^ 10)" by (rule small_quotient_finite)
  then have f: "\<not> overflows (3 / viewportHeight state)" unfolding q .
  have p: "0 < viewportHeight state" by (simp add: v)
  show ?thesis using adjustIterations_finite [OF a p f] unfolding t .
qed

text \<open>
  The quotient is an infinity for every height up to \<open>3 / (DBL_MAX + 2\<^sup>9\<^sup>7\<^sup>0)\<close>, about
  \<open>1.67e-308\<close>, and the call then has no defined result.
\<close>

lemma overflows_iff:
  assumes "0 < (h::real)"
  shows "overflows (3 / h) \<longleftrightarrow> h \<le> 3 / (DBL_MAX + 2 ^ 970)"
proof -
  have T: "0 < DBL_MAX + 2 ^ 970" unfolding threshold_eq by (rule mult_pos_pos) simp_all
  have "\<bar>3 / h\<bar> = 3 / h" using assms by simp
  then show ?thesis
    unfolding overflows_def using assms T by (simp add: field_simps)
qed

lemma adjustIterations_overflow:
  assumes "autoIterations state" and "0 < viewportHeight state"
    and "overflows (3 / viewportHeight state)"
  shows "adjustIterations state = Inl NotRepresentable"
  using assms by (simp add: adjustIterations_def)

lemma deep_quotient: "0 < P \<Longrightarrow> 3 / (1 / P) = 3 * (P::real)"
  by simp

lemma deep_overflows: "overflows (3 / DBL_TRUE_MIN)"
proof -
  have P: "0 < (2::real) ^ 1074" by (rule zero_less_power) simp
  have q: "3 / DBL_TRUE_MIN = 3 * 2 ^ 1074"
    unfolding DBL_TRUE_MIN_def by (rule deep_quotient [OF P])
  have "DBL_MAX + 2 ^ 970 \<le> (2::real) ^ (54 + 970)" by (rule threshold_le)
  also have "\<dots> \<le> (2::real) ^ 1074" by (rule power_increasing) simp_all
  also have "\<dots> \<le> 3 * (2::real) ^ 1074" using P by linarith
  finally have "DBL_MAX + 2 ^ 970 \<le> 3 * (2::real) ^ 1074" .
  moreover have "\<bar>3 * (2::real) ^ 1074\<bar> = 3 * 2 ^ 1074" using P by (intro abs_of_pos) linarith
  ultimately show ?thesis unfolding overflows_def q by simp
qed

lemma deep_claimed_value:
  "trunc (max 100 (min 10000 (100 * log 10 (1 + 3 / DBL_TRUE_MIN)))) = 10000"
proof -
  have P: "0 < (2::real) ^ 1074" by (rule zero_less_power) simp
  have q: "3 / DBL_TRUE_MIN = 3 * 2 ^ 1074"
    unfolding DBL_TRUE_MIN_def by (rule deep_quotient [OF P])
  have "(10::real) ^ 100 \<le> 16 ^ 100" by (rule power_mono) simp_all
  also have "(16::real) ^ 100 = (2 ^ 4) ^ 100" by simp
  also have "\<dots> = (2::real) ^ (4 * 100)" by (rule power_mult [symmetric])
  also have "\<dots> \<le> (2::real) ^ 1074" by (rule power_increasing) simp_all
  also have "\<dots> \<le> 1 + 3 * (2::real) ^ 1074" using P by linarith
  finally have le: "(10::real) ^ 100 \<le> 1 + 3 * 2 ^ 1074" .
  have gt0: "0 < 1 + 3 * (2::real) ^ 1074" using P by linarith
  have n: "100 * real 100 = (10000::real)" by simp
  have "100 * real 100 \<le> 100 * log 10 (1 + 3 * (2::real) ^ 1074)"
    by (rule log10_lower [OF gt0 le])
  then have "10000 \<le> 100 * log 10 (1 + 3 * (2::real) ^ 1074)" unfolding n .
  then have "trunc (max 100 (min 10000 (100 * log 10 (1 + 3 * (2::real) ^ 1074)))) = 10000"
    by (rule clamp_high)
  then show ?thesis unfolding q .
qed

text \<open>
  Claim C7 says that with \<open>autoIterations\<close> set, \<open>adjustIterations\<close> sets \<open>maxIterations\<close> to
  \<open>clamp(100 * log10(1 + 3.0/viewportHeight), 100, 10000)\<close> truncated to an integer. The code
  converts to \<open>int\<close> before it clamps. At the least positive \<open>double\<close> as viewport height, with
  \<open>autoIterations\<close> set, the quotient \<open>3.0 / viewportHeight\<close> is an infinity and the conversion
  has no defined result, where the clamp of the claim gives 10000.
\<close>

theorem adjustIterations_converts_before_clamp:
  "autoIterations deepZoomState
   \<and> viewportHeight deepZoomState = DBL_TRUE_MIN
   \<and> overflows (3.0 / viewportHeight deepZoomState)
   \<and> adjustIterations deepZoomState = Inl NotRepresentable
   \<and> trunc (max 100 (min 10000 (100 * log 10 (1 + 3.0 / viewportHeight deepZoomState))))
       = 10000"
proof -
  have a: "autoIterations deepZoomState" by (simp add: deepZoomState_def defaultState_def)
  have v: "viewportHeight deepZoomState = DBL_TRUE_MIN" by (simp add: deepZoomState_def)
  have pos: "0 < DBL_TRUE_MIN" unfolding DBL_TRUE_MIN_def by (rule divide_pos_pos) simp_all
  have r: "adjustIterations deepZoomState = Inl NotRepresentable"
    using a v pos deep_overflows by (simp add: adjustIterations_def)
  show ?thesis using a v r deep_overflows deep_claimed_value by simp
qed


section \<open>Pixel coordinates\<close>

lemma collectColors_single:
  "collectColors [c] =
     (case c of None \<Rightarrow> None | Some (Inl e) \<Rightarrow> Some (Inl e) | Some (Inr col) \<Rightarrow> Some (Inr [col]))"
  by (cases c) (auto split: sum.splits)

text \<open>
  A 1 by 1 grid of the supersampling path samples the pixel at offset \<open>0.5\<close>, its centre.
\<close>

lemma antiAliasedColor_one:
  assumes "width \<noteq> 0" and "height \<noteq> 0"
  shows "antiAliasedColor 1 fuel x y state width height palette
       = sampleColor fuel state palette
           (viewportX state - getViewportWidth state / 2
              + (real_of_int x + 0.5) * (getViewportWidth state / real_of_int width))
           (viewportY state - viewportHeight state / 2
              + (real_of_int y + 0.5) * (viewportHeight state / real_of_int height))"
proof -
  let ?s = "sampleColor fuel state palette
           (viewportX state - getViewportWidth state / 2
              + (real_of_int x + 0.5) * (getViewportWidth state / real_of_int width))
           (viewportY state - viewportHeight state / 2
              + (real_of_int y + 0.5) * (viewportHeight state / real_of_int height))"
  have grid: "[0..(1::int) - 1] = [0]" by (simp add: upto.simps)
  show ?thesis
  proof (cases ?s)
    case None
    then show ?thesis
      using assms by (simp add: antiAliasedColor_def grid Let_def)
  next
    case (Some r)
    then show ?thesis
      using assms
      by (cases r) (simp_all add: antiAliasedColor_def grid Let_def)
  qed
qed

text \<open>
  The single-sample path of \<open>renderFractalRegion\<close> samples every pixel at offset \<open>0\<close>, its
  corner: half a pixel away from the centre of the supersampling grid, on every pixel.
\<close>

lemma pixelColor_single:
  assumes "width \<noteq> 0" and "height \<noteq> 0" and "\<not> antiAliasing state"
  shows "pixelColor fuel state palette x y width height
       = sampleColor fuel state palette
           (viewportX state - getViewportWidth state / 2
              + real_of_int x * (getViewportWidth state / real_of_int width))
           (viewportY state - viewportHeight state / 2
              + real_of_int y * (viewportHeight state / real_of_int height))"
  using assms by (simp add: pixelColor_def Let_def)

lemma centre_width: "getViewportWidth centreShiftState = 16"
  by (simp add: getViewportWidth_def centreShiftState_def defaultState_def ASPECT_RATIO_def
      WINDOW_WIDTH_def WINDOW_HEIGHT_def)

lemma atan2_pos_axis: "0 < x \<Longrightarrow> atan2 0 x = 0"
  by (simp add: atan2_def)

lemma corner_sample:
  "sampleColor 128 centreShiftState (PALETTES ! 0) 0 (- 1 / 10) = Some (Inr (Color 0 0 0))"
  by (simp add: sampleColor_def centreShiftState_def defaultState_def calculateFractal_def
      cardioidCheck_def Let_def shade_def)

lemma centre_call:
  "calculateFractal 128 2 0 (-0.8) 0.156 128 False 0 True 5 False
     = Some \<lparr> iteration = 4, smoothIteration = smoothValue 4 (1446 * 1446), stripeSum = Some 0 \<rparr>"
  by (simp add: calculateFractal_def cardioidCheck_def bulbCheck_def Let_def
      ESCAPE_RADIUS_SQUARED_def eval_nat_numeral atan2_pos_axis)

lemma centre_sample:
  "sampleColor 128 centreShiftState (PALETTES ! 0) 2 0 = Some (Inr (Color 66 30 15))"
proof -
  have t: "toInt 0 = Inr 0" by (simp add: toInt_def trunc_def)
  have c: "colorFor 0 (PALETTES ! 0) = Inr (Color 66 30 15)"
    by (simp add: colorFor_def t palette0 toSizeT_def Let_def interpolateColors_def
        toUint8_def trunc_def)
  show ?thesis
    using centre_call c
    by (simp add: sampleColor_def centreShiftState_def defaultState_def shade_def)
qed

lemma centre_geometry:
  "viewportX centreShiftState - getViewportWidth centreShiftState / 2
     + real_of_int 0 * (getViewportWidth centreShiftState / real_of_int 4) = 0"
  "viewportY centreShiftState - viewportHeight centreShiftState / 2
     + real_of_int 0 * (viewportHeight centreShiftState / real_of_int 45) = - 1 / 10"
  "viewportX centreShiftState - getViewportWidth centreShiftState / 2
     + (real_of_int 0 + 0.5) * (getViewportWidth centreShiftState / real_of_int 4) = 2"
  "viewportY centreShiftState - viewportHeight centreShiftState / 2
     + (real_of_int 0 + 0.5) * (viewportHeight centreShiftState / real_of_int 45) = 0"
  by (simp_all add: centre_width) (simp_all add: centreShiftState_def defaultState_def)

text \<open>
  Claim C2 says that the single-sample path maps the pixel \<open>(x, y)\<close> to the complex coordinate
  \<open>viewportX - viewportWidth/2 + (x + 0.5) * viewportWidth/width\<close> (and likewise for \<open>y\<close>), the
  centre of the pixel, so that supersampling with a 1 by 1 grid gives the same colour. The
  code of the single-sample path has \<open>x * pixelWidth\<close>, the corner of the pixel, while the
  supersampling path centres its grid on \<open>x + 0.5\<close>. For the pixel \<open>(0, 0)\<close> of a 4 by 45 image
  of the view \<open>centreShiftState\<close> the single-sample path samples \<open>0 - 0.1i\<close>, inside the
  cardioid, and writes black; the centre of the pixel is \<open>2 + 0i\<close>, which escapes, and the
  1 by 1 grid gives the first palette colour there.
\<close>

theorem supersample_1x1_differs_from_single_sample:
  "pixelColor 128 centreShiftState (PALETTES ! 0) 0 0 4 45
     = sampleColor 128 centreShiftState (PALETTES ! 0) 0 (- 1 / 10)
   \<and> pixelColor 128 centreShiftState (PALETTES ! 0) 0 0 4 45 = Some (Inr (Color 0 0 0))
   \<and> antiAliasedColor 1 128 0 0 centreShiftState 4 45 (PALETTES ! 0)
       = sampleColor 128 centreShiftState (PALETTES ! 0) 2 0
   \<and> antiAliasedColor 1 128 0 0 centreShiftState 4 45 (PALETTES ! 0)
       = Some (Inr (Color 66 30 15))"
proof -
  have na: "\<not> antiAliasing centreShiftState"
    by (simp add: centreShiftState_def defaultState_def)
  have a: "pixelColor 128 centreShiftState (PALETTES ! 0) 0 0 4 45
      = sampleColor 128 centreShiftState (PALETTES ! 0) 0 (- 1 / 10)"
    using pixelColor_single [of 4 45 centreShiftState 128 "PALETTES ! 0" 0 0] na
    unfolding centre_geometry by simp
  have b: "antiAliasedColor 1 128 0 0 centreShiftState 4 45 (PALETTES ! 0)
      = sampleColor 128 centreShiftState (PALETTES ! 0) 2 0"
    using antiAliasedColor_one [of 4 45 128 0 0 centreShiftState "PALETTES ! 0"]
    unfolding centre_geometry by simp
  show ?thesis
    unfolding a b using corner_sample centre_sample by simp
qed


section \<open>Bands and worker count\<close>

lemma renderPixels_append:
  "renderPixels fuel state palette width height (ps @ qs) pixels =
     (case renderPixels fuel state palette width height ps pixels of
        None \<Rightarrow> None
      | Some (Inl e) \<Rightarrow> Some (Inl e)
      | Some (Inr pixels') \<Rightarrow> renderPixels fuel state palette width height qs pixels')"
proof (induction ps arbitrary: pixels)
  case Nil
  then show ?case by simp
next
  case (Cons p ps)
  show ?case
  proof (cases "pixelColor fuel state palette (fst p) (snd p) width height")
    case None
    then show ?thesis by simp
  next
    case (Some r)
    then show ?thesis by (cases r) (simp_all add: Cons.IH)
  qed
qed

lemma regionPixels_empty: "regionPixels a a width = []"
  by (simp add: regionPixels_def)

lemma regionPixels_split:
  assumes "a \<le> b" and "b \<le> c"
  shows "regionPixels a c width = regionPixels a b width @ regionPixels b c width"
proof (cases "b = c")
  case True
  then show ?thesis by (simp add: regionPixels_empty)
next
  case False
  with assms have "a \<le> b" "b \<le> c - 1" by simp_all
  then have "[a..c - 1] = [a..b - 1] @ [b..c - 1]" by (rule upto_split1)
  then show ?thesis by (simp add: regionPixels_def)
qed

lemma region_compose:
  assumes "a \<le> b" and "b \<le> c"
  shows "renderFractalRegion fuel pixels state a c width height =
     (case renderFractalRegion fuel pixels state a b width height of
        None \<Rightarrow> None
      | Some (Inl e) \<Rightarrow> Some (Inl e)
      | Some (Inr pixels') \<Rightarrow> renderFractalRegion fuel pixels' state b c width height)"
  unfolding renderFractalRegion_def Let_def
  by (simp add: regionPixels_split [OF assms] renderPixels_append)

lemma chain_le: "spec_contiguous a bs c \<Longrightarrow> a \<le> c"
proof (induction bs arbitrary: a)
  case Nil
  then show ?case by simp
next
  case (Cons b bs)
  then have "a \<le> snd b" and "snd b \<le> c" by simp_all
  then show ?case by linarith
qed

lemma runBands_chain:
  assumes "spec_contiguous a bs c"
  shows "runBands fuel state width height bs pixels
       = renderFractalRegion fuel pixels state a c width height"
  using assms
proof (induction bs arbitrary: a pixels)
  case Nil
  then show ?case
    by (simp add: renderFractalRegion_def regionPixels_empty Let_def)
next
  case (Cons b bs)
  then have fb: "fst b = a" and ab: "a \<le> snd b" and rest: "spec_contiguous (snd b) bs c"
    by simp_all
  have bc: "snd b \<le> c" using rest by (rule chain_le)
  show ?case
  proof (cases "renderFractalRegion fuel pixels state a (snd b) width height")
    case None
    then show ?thesis by (simp add: region_compose [OF ab bc] fb)
  next
    case (Some r)
    then show ?thesis
      by (cases r) (simp_all add: region_compose [OF ab bc] fb Cons.IH [OF rest])
  qed
qed

lemma sdiv_nonneg: "0 \<le> h \<Longrightarrow> 0 < n \<Longrightarrow> h sdiv n = h div (n::int)"
  by (simp add: signed_divide_int_def sgn_if)

lemma bands_eq:
  assumes "0 \<le> h" and "0 < n"
  shows "bands n h
       = map (\<lambda>i. (i * (h div n), if i = n - 1 then h else (i + 1) * (h div n))) [0..n - 1]"
  by (simp add: bands_def sdiv_nonneg [OF assms] Let_def)

lemma last_start_le:
  assumes "0 \<le> h" and "0 < n"
  shows "(n - 1) * (h div n) \<le> (h::int)"
proof -
  have d: "0 \<le> h div n" using assms by (simp add: pos_imp_zdiv_nonneg_iff)
  have "n * (h div n) + h mod n = h" by simp
  moreover have "0 \<le> h mod n" using assms(2) by simp
  ultimately have "n * (h div n) \<le> h" by linarith
  moreover have "(n - 1) * (h div n) \<le> n * (h div n)"
    using d by (intro mult_right_mono) simp_all
  ultimately show ?thesis by linarith
qed

lemma chain_tail:
  assumes "0 \<le> h" and "0 < n" and "0 \<le> k" and "k \<le> n - 1"
  shows "spec_contiguous (k * (h div n))
           (map (\<lambda>i. (i * (h div n), if i = n - 1 then h else (i + 1) * (h div n))) [k..n - 1]) h"
  using assms(3,4)
proof (induction "nat (n - 1 - k)" arbitrary: k)
  case 0
  then have k: "k = n - 1" by simp
  have "[k..n - 1] = [k]" using k by (simp add: upto.simps)
  then show ?case using last_start_le [OF assms(1,2)] k by simp
next
  case (Suc m)
  then have lt: "k < n - 1" by linarith
  have u: "[k..n - 1] = k # [k + 1..n - 1]" using lt by (simp add: upto_rec1)
  have d: "0 \<le> h div n" using assms(1,2) by (simp add: pos_imp_zdiv_nonneg_iff)
  have step: "k * (h div n) \<le> (k + 1) * (h div n)"
    using d by (intro mult_right_mono) simp_all
  have ih: "spec_contiguous ((k + 1) * (h div n))
      (map (\<lambda>i. (i * (h div n), if i = n - 1 then h else (i + 1) * (h div n))) [k + 1..n - 1]) h"
    using Suc.hyps(2) Suc.prems lt by (intro Suc.hyps(1)) linarith+
  show ?case using lt step ih by (simp add: u)
qed

lemma bands_chain:
  assumes "0 \<le> h" and "1 \<le> n"
  shows "spec_contiguous 0 (bands n h) h"
proof -
  have n: "0 < n" using assms(2) by simp
  have "spec_contiguous (0 * (h div n))
     (map (\<lambda>i. (i * (h div n), if i = n - 1 then h else (i + 1) * (h div n))) [0..n - 1]) h"
    using assms(2) by (intro chain_tail [OF assms(1) n]) simp_all
  then show ?thesis by (simp add: bands_eq [OF assms(1) n])
qed

lemma renderFractal_whole:
  assumes "0 \<le> h" and "1 \<le> n"
  shows "renderFractal n fuel pixels state width h
       = renderFractalRegion fuel pixels state 0 h width h"
  using assms runBands_chain [OF bands_chain [OF assms]]
  by (simp add: renderFractal_def)

lemma bands_nth:
  assumes "0 \<le> h" and "1 \<le> n" and "0 \<le> i" and "i < n"
  shows "bands n h ! nat i = (i * (h div n), if i = n - 1 then h else (i + 1) * (h div n))"
proof -
  have n: "0 < n" using assms(2) by simp
  have len: "nat i < length [0..n - 1]" using assms by simp
  have "[0..n - 1] ! nat i = i" using assms by simp
  then show ?thesis
    using len by (simp add: bands_eq [OF assms(1) n])
qed


lemma writePixel_other:
  assumes "k < (y * w + x) * 4 \<or> (y * w + x) * 4 + 3 < k"
  shows "writePixel p w x y c k = p k"
  using assms by (auto simp: writePixel_def Let_def)

lemma writePixel_cells:
  "writePixel p w x y c ((y * w + x) * 4) = col_r c"
  "writePixel p w x y c ((y * w + x) * 4 + 1) = col_g c"
  "writePixel p w x y c ((y * w + x) * 4 + 2) = col_b c"
  "writePixel p w x y c ((y * w + x) * 4 + 3) = 255"
  by (simp_all add: writePixel_def Let_def)

lemma cells_disjoint:
  "(i::int) \<noteq> j \<Longrightarrow> j * 4 \<le> k \<Longrightarrow> k \<le> j * 4 + 3 \<Longrightarrow> k < i * 4 \<or> i * 4 + 3 < k"
  by arith

lemma cells_inside:
  "(0::int) \<le> i \<Longrightarrow> i \<le> H - 1 \<Longrightarrow> k < 0 \<or> H * 4 \<le> k \<Longrightarrow> k < i * 4 \<or> i * 4 + 3 < k"
  by arith

text \<open>A run of pixels leaves every cell outside its pixels as it was.\<close>

lemma renderPixels_frame:
  assumes "renderPixels fuel state palette w h ps p = Some (Inr p')"
    and "\<forall>q \<in> set ps. k < (snd q * w + fst q) * 4 \<or> (snd q * w + fst q) * 4 + 3 < k"
  shows "p' k = p k"
  using assms
proof (induction ps arbitrary: p)
  case Nil
  then show ?case by simp
next
  case (Cons a ps)
  from Cons.prems(1) obtain c where c: "pixelColor fuel state palette (fst a) (snd a) w h = Some (Inr c)"
    and rest: "renderPixels fuel state palette w h ps (writePixel p w (fst a) (snd a) c) = Some (Inr p')"
    by (auto split: option.splits sum.splits)
  have "p' k = writePixel p w (fst a) (snd a) c k"
    using Cons.prems(2) by (intro Cons.IH [OF rest]) simp
  also have "\<dots> = p k"
    using Cons.prems(2) by (intro writePixel_other) simp
  finally show ?case .
qed

text \<open>After the run, the four cells of each of its pixels hold the colour of that pixel.\<close>

lemma renderPixels_content:
  assumes "renderPixels fuel state palette w h ps p = Some (Inr p')"
    and "distinct (map (\<lambda>q. snd q * w + fst q) ps)"
    and "q \<in> set ps"
  shows "\<exists>c. pixelColor fuel state palette (fst q) (snd q) w h = Some (Inr c)
           \<and> p' ((snd q * w + fst q) * 4) = col_r c
           \<and> p' ((snd q * w + fst q) * 4 + 1) = col_g c
           \<and> p' ((snd q * w + fst q) * 4 + 2) = col_b c
           \<and> p' ((snd q * w + fst q) * 4 + 3) = 255"
  using assms
proof (induction ps arbitrary: p)
  case Nil
  then show ?case by simp
next
  case (Cons a ps)
  from Cons.prems(1) obtain c where c: "pixelColor fuel state palette (fst a) (snd a) w h = Some (Inr c)"
    and rest: "renderPixels fuel state palette w h ps (writePixel p w (fst a) (snd a) c) = Some (Inr p')"
    by (auto split: option.splits sum.splits)
  have dist: "distinct (map (\<lambda>q. snd q * w + fst q) ps)"
    and notin: "snd a * w + fst a \<notin> (\<lambda>q. snd q * w + fst q) ` set ps"
    using Cons.prems(2) by simp_all
  have fresh: "snd r * w + fst r \<noteq> snd a * w + fst a" if "r \<in> set ps" for r
  proof
    assume "snd r * w + fst r = snd a * w + fst a"
    moreover have "snd r * w + fst r \<in> (\<lambda>q. snd q * w + fst q) ` set ps"
      using that by (rule imageI)
    ultimately show False using notin by simp
  qed
  show ?case
  proof (cases "q \<in> set ps")
    case True
    then show ?thesis by (rule Cons.IH [OF rest dist])
  next
    case False
    with Cons.prems(3) have qa: "q = a" by simp
    have keep: "p' k = writePixel p w (fst a) (snd a) c k"
      if "(snd a * w + fst a) * 4 \<le> k" and "k \<le> (snd a * w + fst a) * 4 + 3" for k
    proof (rule renderPixels_frame [OF rest], intro ballI)
      fix r assume "r \<in> set ps"
      then have "snd r * w + fst r \<noteq> snd a * w + fst a" by (rule fresh)
      then show "k < (snd r * w + fst r) * 4 \<or> (snd r * w + fst r) * 4 + 3 < k"
        using that by (rule cells_disjoint)
    qed
    have c0: "p' ((snd a * w + fst a) * 4) = col_r c"
      using keep [of "(snd a * w + fst a) * 4"] writePixel_cells(1) [of p w "fst a" "snd a" c]
      by simp
    have c1: "p' ((snd a * w + fst a) * 4 + 1) = col_g c"
      using keep [of "(snd a * w + fst a) * 4 + 1"] writePixel_cells(2) [of p w "fst a" "snd a" c]
      by simp
    have c2: "p' ((snd a * w + fst a) * 4 + 2) = col_b c"
      using keep [of "(snd a * w + fst a) * 4 + 2"] writePixel_cells(3) [of p w "fst a" "snd a" c]
      by simp
    have c3: "p' ((snd a * w + fst a) * 4 + 3) = 255"
      using keep [of "(snd a * w + fst a) * 4 + 3"] writePixel_cells(4) [of p w "fst a" "snd a" c]
      by simp
    show ?thesis
      unfolding qa using c c0 c1 c2 c3 by blast
  qed
qed

lemma map_shift_upto: "map (\<lambda>x. b + x) [i..j] = [b + i..b + (j::int)]"
proof (induction "nat (j - i + 1)" arbitrary: i)
  case 0
  then show ?case by simp
next
  case (Suc m)
  then have ij: "i \<le> j" by linarith
  have "[i..j] = i # [i + 1..j]" using ij by (simp add: upto_rec1)
  moreover have "[b + i..b + j] = (b + i) # [b + i + 1..b + j]" using ij by (simp add: upto_rec1)
  moreover have "map (\<lambda>x. b + x) [i + 1..j] = [b + (i + 1)..b + j]"
    using Suc.hyps by (intro Suc.hyps(1)) linarith
  ultimately show ?case by (simp add: add.assoc)
qed

text \<open>For a positive width the pixel indices of a region count up from its first row.\<close>

lemma region_indices:
  assumes "0 < w" and "a \<le> b"
  shows "map (\<lambda>q. snd q * w + fst q) (regionPixels a b w) = [a * w..b * w - 1]"
  using assms(2)
proof (induction "nat (b - a)" arbitrary: b)
  case 0
  then have "b = a" by simp
  then show ?case by (simp add: regionPixels_empty)
next
  case (Suc m)
  then have ab: "a \<le> b - 1" and m: "m = nat (b - 1 - a)" by linarith+
  have split: "regionPixels a b w = regionPixels a (b - 1) w @ regionPixels (b - 1) b w"
    using ab by (intro regionPixels_split) simp_all
  have row: "map (\<lambda>q. snd q * w + fst q) (regionPixels (b - 1) b w)
      = [(b - 1) * w..b * w - 1]"
  proof -
    have "[b - 1..b - 1] = [b - 1]" by (simp add: upto.simps)
    then have "map (\<lambda>q. snd q * w + fst q) (regionPixels (b - 1) b w)
        = map (\<lambda>x. (b - 1) * w + x) [0..w - 1]"
      by (simp add: regionPixels_def comp_def)
    also have "\<dots> = [(b - 1) * w + 0..(b - 1) * w + (w - 1)]" by (rule map_shift_upto)
    also have "(b - 1) * w + (w - 1) = b * w - 1" by (simp add: algebra_simps)
    finally show ?thesis by simp
  qed
  have le1: "a * w \<le> (b - 1) * w" using ab assms(1) by (intro mult_right_mono) simp_all
  have le2: "(b - 1) * w \<le> b * w - 1"
  proof -
    have "(b - 1) * w = b * w - w" by (simp add: algebra_simps)
    then show ?thesis using assms(1) by linarith
  qed
  have "[a * w..b * w - 1] = [a * w..(b - 1) * w - 1] @ [(b - 1) * w..b * w - 1]"
    using le1 le2 by (rule upto_split1)
  then show ?case
    using Suc.hyps(1) [OF m ab] by (simp add: split row)
qed

lemma region_distinct:
  assumes "0 < w" and "a \<le> b"
  shows "distinct (map (\<lambda>q. snd q * w + fst q) (regionPixels a b w))"
  by (simp add: region_indices [OF assms])

lemma region_member:
  assumes "a \<le> y" and "y < b" and "0 \<le> x" and "x < w"
  shows "(x, y) \<in> set (regionPixels a b w)"
proof -
  have "(x, y) \<in> (\<lambda>x. (x, y)) ` {0..w - 1}"
    using assms by (intro image_eqI [of _ _ x]) simp_all
  then have "\<exists>row \<in> {a..b - 1}. (x, y) \<in> (\<lambda>x. (x, row)) ` {0..w - 1}"
    using assms by (intro bexI [of _ y]) simp_all
  then show ?thesis by (simp add: regionPixels_def)
qed

text \<open>
  The buffer that \<open>renderFractal\<close> returns, cell by cell: the cells of every pixel of the
  image hold the colour of that pixel and 255, and no other cell has changed. Each cell is
  a function of the state and of the pixel alone.
\<close>

lemma renderFractal_content:
  assumes n: "1 \<le> n" and h: "0 \<le> height" and w: "0 < width"
    and run: "renderFractal n fuel pixels state width height = Some (Inr pixels')"
  shows "\<forall>x y. 0 \<le> x \<and> x < width \<and> 0 \<le> y \<and> y < height \<longrightarrow>
           (\<exists>c. pixelColor fuel state
                   (PALETTES ! nat (toSizeT (colorScheme state) mod int (length PALETTES)))
                   x y width height = Some (Inr c)
              \<and> pixels' ((y * width + x) * 4) = col_r c
              \<and> pixels' ((y * width + x) * 4 + 1) = col_g c
              \<and> pixels' ((y * width + x) * 4 + 2) = col_b c
              \<and> pixels' ((y * width + x) * 4 + 3) = 255)"
    and "\<forall>k. k < 0 \<or> height * width * 4 \<le> k \<longrightarrow> pixels' k = pixels k"
proof -
  let ?pal = "PALETTES ! nat (toSizeT (colorScheme state) mod int (length PALETTES))"
  have r: "renderPixels fuel state ?pal width height (regionPixels 0 height width) pixels
      = Some (Inr pixels')"
    using run renderFractal_whole [OF h n, of fuel pixels state width]
    by (simp add: renderFractalRegion_def Let_def)
  show "\<forall>x y. 0 \<le> x \<and> x < width \<and> 0 \<le> y \<and> y < height \<longrightarrow>
           (\<exists>c. pixelColor fuel state ?pal x y width height = Some (Inr c)
              \<and> pixels' ((y * width + x) * 4) = col_r c
              \<and> pixels' ((y * width + x) * 4 + 1) = col_g c
              \<and> pixels' ((y * width + x) * 4 + 2) = col_b c
              \<and> pixels' ((y * width + x) * 4 + 3) = 255)"
  proof (intro allI impI)
    fix x y assume b: "0 \<le> x \<and> x < width \<and> 0 \<le> y \<and> y < height"
    then have mem: "(x, y) \<in> set (regionPixels 0 height width)"
      by (intro region_member) simp_all
    show "\<exists>c. pixelColor fuel state ?pal x y width height = Some (Inr c)
              \<and> pixels' ((y * width + x) * 4) = col_r c
              \<and> pixels' ((y * width + x) * 4 + 1) = col_g c
              \<and> pixels' ((y * width + x) * 4 + 2) = col_b c
              \<and> pixels' ((y * width + x) * 4 + 3) = 255"
      using renderPixels_content [OF r region_distinct [OF w h] mem] by simp
  qed
  show "\<forall>k. k < 0 \<or> height * width * 4 \<le> k \<longrightarrow> pixels' k = pixels k"
  proof (intro allI impI)
    fix k assume k: "k < 0 \<or> height * width * 4 \<le> k"
    show "pixels' k = pixels k"
    proof (rule renderPixels_frame [OF r], intro ballI)
      fix q assume "q \<in> set (regionPixels 0 height width)"
      then have "snd q * width + fst q \<in> (\<lambda>q. snd q * width + fst q) `
          set (regionPixels 0 height width)" by (rule imageI)
      then have "snd q * width + fst q \<in> set (map (\<lambda>q. snd q * width + fst q)
          (regionPixels 0 height width))" by simp
      then have "0 \<le> snd q * width + fst q" "snd q * width + fst q \<le> height * width - 1"
        by (simp_all add: region_indices [OF w h])
      then show "k < (snd q * width + fst q) * 4 \<or> (snd q * width + fst q) * 4 + 3 < k"
        using k by (rule cells_inside)
    qed
  qed
qed

text \<open>
  Claim C8. For \<open>n \<ge> 1\<close> workers and a height of at least 0, \<open>renderFractal\<close> cuts the rows
  into \<open>n\<close> bands: the first starts at row 0, each band starts where the one before it ends,
  the last ends at \<open>height\<close>; every band but the last has \<open>height div n\<close> rows and the last
  has the remaining \<open>height - (n - 1) * (height div n)\<close>. The result is that of rendering
  the rows \<open>0 \<le> y < height\<close> as one region, so it is the same for every worker count.
  (By \<open>renderFractal_content\<close> each cell of that result depends on the state and on its
  pixel alone, whatever the order in which the rows are rendered.)
\<close>

theorem renderFractal_bands_partition_and_worker_count:
  "1 \<le> n \<and> 1 \<le> m \<and> 0 \<le> height \<longrightarrow>
     length (bands n height) = nat n
   \<and> fst (bands n height ! 0) = 0
   \<and> snd (bands n height ! nat (n - 1)) = height
   \<and> (\<forall>i. 0 \<le> i \<and> i < n - 1 \<longrightarrow>
          snd (bands n height ! nat i) = fst (bands n height ! nat (i + 1))
        \<and> snd (bands n height ! nat i) - fst (bands n height ! nat i) = height div n)
   \<and> 0 \<le> height div n
   \<and> snd (bands n height ! nat (n - 1)) - fst (bands n height ! nat (n - 1))
        = height - (n - 1) * (height div n)
   \<and> 0 \<le> height - (n - 1) * (height div n)
   \<and> renderFractal n fuel pixels state width height
        = renderFractalRegion fuel pixels state 0 height width height
   \<and> renderFractal n fuel pixels state width height
        = renderFractal m fuel pixels state width height"
proof
  assume h: "1 \<le> n \<and> 1 \<le> m \<and> 0 \<le> height"
  then have n: "1 \<le> n" and m: "1 \<le> m" and h0: "0 \<le> height" by simp_all
  have n0: "0 < n" using n by simp
  note nth = bands_nth [OF h0 n]
  have len: "length (bands n height) = nat n"
    using n by (simp add: bands_eq [OF h0 n0])
  have first: "fst (bands n height ! 0) = 0"
    using nth [of 0] n0 by simp
  have last: "bands n height ! nat (n - 1) = ((n - 1) * (height div n), height)"
    using nth [of "n - 1"] n by simp
  have mid: "snd (bands n height ! nat i) = fst (bands n height ! nat (i + 1))
        \<and> snd (bands n height ! nat i) - fst (bands n height ! nat i) = height div n"
    if "0 \<le> i \<and> i < n - 1" for i
  proof -
    have a: "bands n height ! nat i = (i * (height div n), (i + 1) * (height div n))"
      using nth [of i] that by simp
    have b: "fst (bands n height ! nat (i + 1)) = (i + 1) * (height div n)"
      using nth [of "i + 1"] that by simp
    show ?thesis unfolding a b by (simp add: algebra_simps)
  qed
  have d: "0 \<le> height div n" using h0 n0 by (simp add: pos_imp_zdiv_nonneg_iff)
  have whole: "renderFractal k fuel pixels state width height
      = renderFractalRegion fuel pixels state 0 height width height" if "1 \<le> k" for k
    by (rule renderFractal_whole [OF h0 that])
  show "length (bands n height) = nat n
   \<and> fst (bands n height ! 0) = 0
   \<and> snd (bands n height ! nat (n - 1)) = height
   \<and> (\<forall>i. 0 \<le> i \<and> i < n - 1 \<longrightarrow>
          snd (bands n height ! nat i) = fst (bands n height ! nat (i + 1))
        \<and> snd (bands n height ! nat i) - fst (bands n height ! nat i) = height div n)
   \<and> 0 \<le> height div n
   \<and> snd (bands n height ! nat (n - 1)) - fst (bands n height ! nat (n - 1))
        = height - (n - 1) * (height div n)
   \<and> 0 \<le> height - (n - 1) * (height div n)
   \<and> renderFractal n fuel pixels state width height
        = renderFractalRegion fuel pixels state 0 height width height
   \<and> renderFractal n fuel pixels state width height
        = renderFractal m fuel pixels state width height"
  proof (intro conjI allI impI)
    show "length (bands n height) = nat n" by (rule len)
    show "fst (bands n height ! 0) = 0" by (rule first)
    show "snd (bands n height ! nat (n - 1)) = height" by (simp add: last)
    show "0 \<le> height div n" by (rule d)
    show "snd (bands n height ! nat (n - 1)) - fst (bands n height ! nat (n - 1))
        = height - (n - 1) * (height div n)" by (simp add: last)
    show "0 \<le> height - (n - 1) * (height div n)"
      using last_start_le [OF h0 n0] by simp
    show "renderFractal n fuel pixels state width height
        = renderFractalRegion fuel pixels state 0 height width height"
      by (rule whole [OF n])
    show "renderFractal n fuel pixels state width height
        = renderFractal m fuel pixels state width height"
      by (simp only: whole [OF n] whole [OF m])
  next
    fix i assume i: "0 \<le> i \<and> i < n - 1"
    show "snd (bands n height ! nat i) = fst (bands n height ! nat (i + 1))"
      using mid [OF i] by (rule conjunct1)
    show "snd (bands n height ! nat i) - fst (bands n height ! nat i) = height div n"
      using mid [OF i] by (rule conjunct2)
  qed
qed

theorem renderFractal_bands_partition_and_worker_count_witness:
  "length (bands 8 756) = 8
   \<and> fst (bands 8 756 ! 0) = 0
   \<and> snd (bands 8 756 ! 7) = 756
   \<and> renderFractal 8 128 (\<lambda>k. 0) defaultState 1344 756
        = renderFractal 1 128 (\<lambda>k. 0) defaultState 1344 756"
proof -
  have p: "(1::int) \<le> 8 \<and> (1::int) \<le> 1 \<and> (0::int) \<le> 756" by simp
  have c: "nat 8 = 8" "nat (8 - 1) = 7" by simp_all
  from renderFractal_bands_partition_and_worker_count
    [of 8 1 756 128 "\<lambda>k. 0" defaultState 1344, THEN mp, OF p]
  show ?thesis unfolding c by blast
qed


end
